theory Spec2Isabelle
  imports Complex_Main "HOL-Library.AList"
begin

section \<open>The View of dwv (src/image/view.js)\<close>

text \<open>
  JavaScript numbers that carry intensities (window centre and width, rescale slope and
  intercept, world coordinates) are modelled as exact reals; index components are
  integers and array positions are naturals. The own properties of a JavaScript object
  used as a dictionary are an association list with distinct keys, in the order of
  \<^verbatim>\<open>Object.keys\<close>.
\<close>

subsection \<open>Value types and collaborators\<close>

type_synonym index = "int list"

type_synonym point = "real list"

record windowLevel =
  wl_center :: real
  wl_width :: real

record rsi =
  rsi_slope :: real
  rsi_intercept :: real

datatype error = Error string | TypeError

text \<open>
  Modelled from the spec: \<^verbatim>\<open>dwv.image.WindowLevel.equals\<close> is not part of the two source
  files. The spec says that WindowLevel equality is value equality on (center, width);
  the argument may be \<^verbatim>\<open>null\<close> or \<^verbatim>\<open>undefined\<close>, to which nothing is equal.
\<close>

definition WindowLevel_equals :: "windowLevel \<Rightarrow> windowLevel option \<Rightarrow> bool" where
  "WindowLevel_equals this rhs =
     (case rhs of
        None \<Rightarrow> False
      | Some r \<Rightarrow> wl_center this = wl_center r \<and> wl_width this = wl_width r)"

text \<open>
  The Geometry and the Image are collaborators whose code is outside the two source files:
  the View only calls them. Each is a record of the functions the View calls, so that
  every theorem holds for any geometry and any image.
\<close>

record geometry =
  geo_sizeLength :: nat
  worldToIndex :: "point \<Rightarrow> index"
  indexToWorld :: "index \<Rightarrow> point"
  isIndexInBounds :: "index \<Rightarrow> nat list \<Rightarrow> bool"

record dwv_image =
  getGeometry :: geometry
  rsiAtIndex :: "index option \<Rightarrow> rsi"
  rsiAtSlice :: "nat \<Rightarrow> rsi"
  bitsStored :: nat
  isSigned :: bool
  getSecondaryOffset :: "index option \<Rightarrow> nat"
  rangeMin :: real
  rangeMax :: real
  canQuantify :: bool
  getRescaledValueAtIndex :: "index \<Rightarrow> real"
  getImageUid :: "index \<Rightarrow> string"

text \<open>
  Modelled from the spec: the classes \<^verbatim>\<open>dwv.image.RescaleLut\<close> and
  \<^verbatim>\<open>dwv.image.WindowLut\<close> are not part of the two source files. Following the spec, a
  RescaleLut is built from an RSI and a bit depth and \<^verbatim>\<open>getRSI\<close> gives that RSI back; a
  WindowLut owns one RescaleLut and one (initially absent) WindowLevel, which
  \<^verbatim>\<open>setWindowLevel\<close> replaces; \<^verbatim>\<open>update\<close> regenerates the display table, of which the
  model keeps only whether it is current.
\<close>

record rescaleLut =
  rl_rsi :: rsi
  rl_bitsStored :: nat

record windowLut =
  wlut_rescaleLut :: rescaleLut
  wlut_isSigned :: bool
  wlut_windowLevel :: "windowLevel option"
  wlut_isReady :: bool

record windowPreset =
  wp_name :: string
  wp_wl :: "windowLevel list option"
  wp_perslice :: "bool option"

text \<open>
  Preset objects are shared by reference: the registry and its callers hold the same
  objects, and \<^verbatim>\<open>setWindowLevelPreset\<close> writes into one. They live in a store addressed by
  reference, in which every reference holds an object: after its construction the View
  creates no preset object, it receives them. A set of presets gives a reference for each
  of its names.
\<close>

type_synonym presetRef = nat

type_synonym presets = "(string \<times> presetRef) list"

subsection \<open>The preset registry as a JavaScript object\<close>

text \<open>
  The registry \<^verbatim>\<open>windowPresets\<close> is a plain object: its own properties, and a prototype
  from which it inherits. The prototype is \<^verbatim>\<open>Object.prototype\<close> (\<open>None\<close>) until an
  assignment to \<^verbatim>\<open>__proto__\<close> makes a preset object the prototype; the prototype of a
  preset object is \<^verbatim>\<open>Object.prototype\<close>. \<^verbatim>\<open>Object.prototype\<close> is taken as the
  language defines it, and a preset object has the properties \<^verbatim>\<open>name\<close>, \<^verbatim>\<open>wl\<close> and
  \<^verbatim>\<open>perslice\<close> only.
\<close>

record registry =
  reg_own :: presets
  reg_proto :: "presetRef option"

text \<open>
  What reading a property gives when it is not \<^verbatim>\<open>undefined\<close>: a preset object, or another
  value (a function of \<^verbatim>\<open>Object.prototype\<close>, \<^verbatim>\<open>Object.prototype\<close> itself, the
  name, array or flag of a preset object), on which \<^verbatim>\<open>wl\<close> and \<^verbatim>\<open>perslice\<close> are
  \<^verbatim>\<open>undefined\<close>.
\<close>

datatype propertyValue = PresetObject presetRef | OtherValue

definition objectPrototypeNames :: "string list" where
  "objectPrototypeNames =
     [''constructor'', ''hasOwnProperty'', ''isPrototypeOf'', ''propertyIsEnumerable'',
      ''toLocaleString'', ''toString'', ''valueOf'', ''__proto__'', ''__defineGetter__'',
      ''__defineSetter__'', ''__lookupGetter__'', ''__lookupSetter__'']"

definition presetProperties :: "windowPreset \<Rightarrow> string list" where
  "presetProperties p =
     [''name''] @ (if wp_wl p = None then [] else [''wl''])
       @ (if wp_perslice p = None then [] else [''perslice''])"


text \<open>
  \<^verbatim>\<open>registry[key]\<close>: the own property, else the inherited one. \<^verbatim>\<open>__proto__\<close> is an
  accessor of \<^verbatim>\<open>Object.prototype\<close> that gives the prototype of the object.
\<close>

definition getProperty ::
  "(presetRef \<Rightarrow> windowPreset) \<Rightarrow> registry \<Rightarrow> string \<Rightarrow> propertyValue option" where
  "getProperty store reg key =
     (case map_of (reg_own reg) key of
        Some r \<Rightarrow> Some (PresetObject r)
      | None \<Rightarrow>
          (case reg_proto reg of
             Some q \<Rightarrow>
               if key = ''__proto__'' then Some (PresetObject q)
               else if key \<in> set (presetProperties (store q)) \<or> key \<in> set objectPrototypeNames
                    then Some OtherValue
                    else None
           | None \<Rightarrow> if key \<in> set objectPrototypeNames then Some OtherValue else None))"

text \<open>
  The order of \<^verbatim>\<open>Object.keys\<close>: the names that are array indices (the decimal numeral,
  without leading zero, of a number below \<^verbatim>\<open>2^32 - 1\<close>) come first, in ascending order,
  then the other names in the order of their creation. \<open>insertOwn\<close> puts a new own
  property in its place in this order.
\<close>

definition isDigit :: "char \<Rightarrow> bool" where
  "isDigit c = (48 \<le> (of_char c :: nat) \<and> (of_char c :: nat) \<le> 57)"

definition arrayIndex :: "string \<Rightarrow> nat option" where
  "arrayIndex s =
     (if s \<noteq> [] \<and> list_all isDigit s \<and> (hd s \<noteq> CHR ''0'' \<or> length s = 1)
      then (let n = foldl (\<lambda>a c. 10 * a + (of_char c - 48)) 0 s
            in if n < 2 ^ 32 - 1 then Some n else None)
      else None)"

fun insertOwn :: "string \<Rightarrow> presetRef \<Rightarrow> presets \<Rightarrow> presets" where
  "insertOwn key p [] = [(key, p)]"
| "insertOwn key p ((k, q) # rest) =
     (case arrayIndex key of
        None \<Rightarrow> (k, q) # insertOwn key p rest
      | Some n \<Rightarrow>
          (case arrayIndex k of
             None \<Rightarrow> (key, p) # (k, q) # rest
           | Some m \<Rightarrow> if n < m then (key, p) # (k, q) # rest
                       else (k, q) # insertOwn key p rest))"

text \<open>
  \<^verbatim>\<open>registry[key] = preset\<close>: an own property is overwritten where it is; the inherited
  accessor \<^verbatim>\<open>__proto__\<close> makes the preset object the prototype of the registry; any other
  name becomes a new own property.
\<close>

definition setProperty :: "registry \<Rightarrow> string \<Rightarrow> presetRef \<Rightarrow> registry" where
  "setProperty reg key p =
     (if key \<in> set (map fst (reg_own reg))
      then reg\<lparr>reg_own := AList.update key p (reg_own reg)\<rparr>
      else if key = ''__proto__'' then reg\<lparr>reg_proto := Some p\<rparr>
      else reg\<lparr>reg_own := insertOwn key p (reg_own reg)\<rparr>)"

text \<open>\<^verbatim>\<open>typeof x.perslice !== 'undefined' && x.perslice === true\<close> of a defined value.\<close>

fun isPerslice :: "(presetRef \<Rightarrow> windowPreset) \<Rightarrow> propertyValue \<Rightarrow> bool" where
  "isPerslice store (PresetObject r) = (wp_perslice (store r) = Some True)"
| "isPerslice store OtherValue = False"

datatype view_event =
    WlChange real real bool
  | WlPresetAdd string
  | PositionChange index point "nat list" string "real option"
  | PositionChangeInvalid index point

text \<open>
  The private variables of the View closure. Window LUT objects are shared by reference
  (the cache holds references, \<^verbatim>\<open>clone\<close> hands them to another View), so they live in
  a store, \<open>lutStore\<close>, addressed by position, and the cache \<open>windowLuts\<close> maps the
  string key of an RSI to an address. Modelled from the spec: the RSI class and its
  \<^verbatim>\<open>toString\<close> are not part of the source files; the spec keys the cache by
  distinct (slope, intercept) pair, so the pair itself stands for its string, which is
  taken not to be a name that objects inherit. \<open>presetObjects\<close> is the store of the
  preset objects and \<open>windowPresets\<close> the registry of their names.
  \<open>orientation\<close> is \<open>None\<close> when undefined, else the third column-major direction of
  the orientation matrix (the only thing the View asks of it). \<open>fired\<close> is the sequence
  of events handed to the listener handler so far.
\<close>

record view =
  v_image :: dwv_image
  lutStore :: "windowLut list"
  windowLuts :: "rsi \<Rightarrow> nat option"
  presetObjects :: "presetRef \<Rightarrow> windowPreset"
  windowPresets :: registry
  currentPresetName :: "string option"
  currentWl :: "windowLevel option"
  currentPosition :: "point option"
  orientation :: "nat option"
  fired :: "view_event list"

definition fireEvent :: "view \<Rightarrow> view_event \<Rightarrow> view" where
  "fireEvent v ev = v\<lparr>fired := fired v @ [ev]\<rparr>"

subsection \<open>Window/level\<close>

definition setWindowLevel ::
  "view \<Rightarrow> real \<Rightarrow> real \<Rightarrow> string option \<Rightarrow> bool option \<Rightarrow> view" where
  "setWindowLevel v center width name silent =
     (if width < 1 then v
      else
        let name' = (case name of None \<Rightarrow> ''manual'' | Some n \<Rightarrow> n);
            silent' = (case silent of None \<Rightarrow> False | Some s \<Rightarrow> s);
            newWl = \<lparr>wl_center = center, wl_width = width\<rparr>;
            isNew = \<not> WindowLevel_equals newWl (currentWl v)
        in if isNew then
             let isNewWidth = (case currentWl v of Some c \<Rightarrow> wl_width c \<noteq> width | None \<Rightarrow> True);
                 isNewCenter = (case currentWl v of Some c \<Rightarrow> wl_center c \<noteq> center | None \<Rightarrow> True);
                 v1 = v\<lparr>currentWl := Some newWl, currentPresetName := Some name'\<rparr>
             in if isNewWidth \<or> isNewCenter
                then fireEvent v1 (WlChange center width silent')
                else v1
           else v)"

definition getWindowLevelMinMax :: "view \<Rightarrow> windowLevel" where
  "getWindowLevelMinMax v =
     (let mn = rangeMin (v_image v);
          mx = rangeMax (v_image v);
          width = mx - mn;
          width' = (if width < 1 then 1 else width);
          center = mn + width' / 2
      in \<lparr>wl_center = center, wl_width = width'\<rparr>)"

subsection \<open>Index and position\<close>

text \<open>
  Modelled from the spec: \<^verbatim>\<open>dwv.math.Index\<close> is not part of the two source files. The
  spec gives it a length query and the comparison of two indices of equal length, which
  produces the list of differing dimension positions.
\<close>

definition Index_canCompare :: "index \<Rightarrow> index \<Rightarrow> bool" where
  "Index_canCompare this rhs = (length this = length rhs)"

definition Index_compare :: "index \<Rightarrow> index \<Rightarrow> nat list" where
  "Index_compare this rhs = filter (\<lambda>i. this ! i \<noteq> rhs ! i) [0..<length this]"

definition getCurrentIndex :: "view \<Rightarrow> index option" where
  "getCurrentIndex v =
     (case currentPosition v of
        None \<Rightarrow> None
      | Some position \<Rightarrow> Some (worldToIndex (getGeometry (v_image v)) position))"

definition getScrollIndex :: "view \<Rightarrow> nat" where
  "getScrollIndex v = (case orientation v of Some d \<Rightarrow> d | None \<Rightarrow> 2)"

text \<open>The directions checked by the bounds test of both position setters.\<close>

definition dirs :: "view \<Rightarrow> index \<Rightarrow> nat list" where
  "dirs v index = [getScrollIndex v] @ (if length index = 4 then [3] else [])"

text \<open>
  The block of \<^verbatim>\<open>setCurrentIndex\<close> that fills its local \<^verbatim>\<open>diffDims\<close> from the
  current index (absent when there is no current position) and the new one.
\<close>

definition diffDims :: "index option \<Rightarrow> index \<Rightarrow> nat list" where
  "diffDims currentIndex index =
     (case currentIndex of
        Some cur \<Rightarrow>
          if Index_canCompare cur index then Index_compare cur index
          else
            let minLen = min (length cur) (length index);
                maxLen = max (length cur) (length index)
            in filter (\<lambda>i. cur ! i \<noteq> index ! i) [0..<minLen] @ [minLen..<maxLen]
      | None \<Rightarrow> [0..<length index])"

definition setCurrentIndex :: "view \<Rightarrow> index \<Rightarrow> bool option \<Rightarrow> bool \<times> view" where
  "setCurrentIndex v index silent =
     (let silent' = (case silent of None \<Rightarrow> False | Some s \<Rightarrow> s);
          geometry = getGeometry (v_image v);
          position = indexToWorld geometry index
      in if \<not> isIndexInBounds geometry index (dirs v index) then (False, v)
         else
           let dd = diffDims (getCurrentIndex v) index;
               v1 = v\<lparr>currentPosition := Some position\<rparr>
           in if \<not> silent' then
                (True,
                 fireEvent v1
                   (PositionChange index position dd (getImageUid (v_image v) index)
                      (if canQuantify (v_image v)
                       then Some (getRescaledValueAtIndex (v_image v) index)
                       else None)))
              else (True, v1))"

definition setCurrentPosition :: "view \<Rightarrow> point \<Rightarrow> bool option \<Rightarrow> bool \<times> view" where
  "setCurrentPosition v position silent =
     (let geometry = getGeometry (v_image v);
          index = worldToIndex geometry position
      in if \<not> isIndexInBounds geometry index (dirs v index) then
           (False,
            if silent = None \<or> silent = Some False
            then fireEvent v (PositionChangeInvalid index position)
            else v)
         else setCurrentIndex v index silent)"

definition setInitialIndex :: "view \<Rightarrow> view" where
  "setInitialIndex v =
     snd (setCurrentIndex v (replicate (geo_sizeLength (getGeometry (v_image v))) 0) (Some True))"

subsection \<open>Window presets\<close>

definition setWindowPresets :: "view \<Rightarrow> registry \<Rightarrow> view" where
  "setWindowPresets v ps = v\<lparr>windowPresets := ps\<rparr>"

text \<open>
  The loop of \<^verbatim>\<open>addWindowPresets\<close> over the keys of the supplied object, which is given
  by its own properties in the order of \<^verbatim>\<open>Object.keys\<close>. A throw leaves the View as it
  is at that moment: the result \<open>Inl (e, v)\<close> carries it.
\<close>

fun addWindowPresets :: "view \<Rightarrow> presets \<Rightarrow> (error \<times> view) + view" where
  "addWindowPresets v [] = Inr v"
| "addWindowPresets v ((key, preset) # rest) =
     (case getProperty (presetObjects v) (windowPresets v) key of
        Some existing \<Rightarrow>
          if isPerslice (presetObjects v) existing
          then Inl (Error ''Cannot add perslice preset'', v)
          else addWindowPresets
                 (v\<lparr>windowPresets := setProperty (windowPresets v) key preset\<rparr>) rest
      | None \<Rightarrow>
          addWindowPresets
            (fireEvent (v\<lparr>windowPresets := setProperty (windowPresets v) key preset\<rparr>)
               (WlPresetAdd key))
            rest)"

text \<open>
  \<^verbatim>\<open>setWindowLevelPreset\<close>: the name is \<open>None\<close> when the caller passes
  \<^verbatim>\<open>undefined\<close> (as \<^verbatim>\<open>setWindowLevelPresetById\<close> does for an id out of range), which
  JavaScript looks up as the key \<^verbatim>\<open>undefined\<close>. Reading an element of an absent array, or a
  method of an absent window level, is a TypeError. The min/max values are written into the
  preset object found under \<^verbatim>\<open>minmax\<close>.
\<close>

definition setWindowLevelPreset ::
  "view \<Rightarrow> string option \<Rightarrow> bool option \<Rightarrow> (error \<times> view) + view" where
  "setWindowLevelPreset v name silent =
     (let key = (case name of None \<Rightarrow> ''undefined'' | Some n \<Rightarrow> n) in
      case getProperty (presetObjects v) (windowPresets v) key of
        None \<Rightarrow> Inl (Error (''Unknown window level preset: '' @ [CHR 0x27] @ key @ [CHR 0x27]), v)
      | Some OtherValue \<Rightarrow> Inl (TypeError, v)
      | Some (PresetObject r) \<Rightarrow>
          let preset0 = presetObjects v r;
              fill = (name = Some ''minmax'' \<and> wp_wl preset0 = None);
              preset = (if fill then preset0\<lparr>wp_wl := Some [getWindowLevelMinMax v]\<rparr> else preset0);
              v1 = (if fill then v\<lparr>presetObjects := (presetObjects v)(r := preset)\<rparr> else v)
          in case wp_wl preset of
               None \<Rightarrow> Inl (TypeError, v1)
             | Some wls \<Rightarrow>
                 let offset = (if wp_perslice preset = Some True
                               then getSecondaryOffset (v_image v1) (getCurrentIndex v1)
                               else 0)
                 in if offset < length wls
                    then Inr (setWindowLevel v1 (wl_center (wls ! offset)) (wl_width (wls ! offset))
                                name silent)
                    else Inl (TypeError, v1))"

definition setWindowLevelPresetById ::
  "view \<Rightarrow> nat \<Rightarrow> bool option \<Rightarrow> (error \<times> view) + view" where
  "setWindowLevelPresetById v n silent =
     (let keys = map fst (reg_own (windowPresets v))
      in setWindowLevelPreset v (if n < length keys then Some (keys ! n) else None) silent)"

definition setWindowLevelMinMax :: "view \<Rightarrow> view" where
  "setWindowLevelMinMax v =
     (let wl = getWindowLevelMinMax v
      in setWindowLevel v (wl_center wl) (wl_width wl) (Some ''minmax'') None)"

subsection \<open>Window lookup tables\<close>

text \<open>
  \<^verbatim>\<open>addWindowLut\<close> takes a reference to a WindowLut and files it under the key of the
  RSI of its own RescaleLut. A reference always points to an object; for an address outside
  the store the model answers as JavaScript does for \<^verbatim>\<open>undefined\<close>, with a TypeError.
\<close>

definition addWindowLut :: "view \<Rightarrow> nat \<Rightarrow> (error \<times> view) + view" where
  "addWindowLut v a =
     (if a < length (lutStore v)
      then
        let rsi = rl_rsi (wlut_rescaleLut (lutStore v ! a))
        in Inr (v\<lparr>windowLuts := (windowLuts v)(rsi \<mapsto> a)\<rparr>)
      else Inl (TypeError, v))"

text \<open>
  The block of \<^verbatim>\<open>getCurrentWindowLut\<close> that resolves the window level \<^verbatim>\<open>wl\<close>: the
  value of a per-slice preset at the secondary offset of the current index when the current
  preset is per-slice, otherwise the current window level, set from the first preset when
  there is none yet. The result may still be absent.
\<close>

definition resolveWindowLevel ::
  "view \<Rightarrow> index option \<Rightarrow> (error \<times> view) + (windowLevel option \<times> view)" where
  "resolveWindowLevel v currentIndex =
     (let perslice =
            (case currentPresetName v of
               None \<Rightarrow> None
             | Some n \<Rightarrow>
                 if n = [] then None
                 else (case getProperty (presetObjects v) (windowPresets v) n of
                         None \<Rightarrow> None
                       | Some OtherValue \<Rightarrow> None
                       | Some (PresetObject r) \<Rightarrow>
                           if wp_perslice (presetObjects v r) = Some True
                           then Some (presetObjects v r) else None))
      in case perslice of
           Some preset \<Rightarrow>
             (case wp_wl preset of
                None \<Rightarrow> Inl (TypeError, v)
              | Some wls \<Rightarrow>
                  let offset = getSecondaryOffset (v_image v) currentIndex
                  in if offset < length wls then Inr (Some (wls ! offset), v)
                     else if currentWl v = None then
                       (case setWindowLevelPresetById v 0 (Some True) of
                          Inl e \<Rightarrow> Inl e
                        | Inr v1 \<Rightarrow> Inr (currentWl v1, v1))
                     else Inr (currentWl v, v))
         | None \<Rightarrow>
             if currentWl v = None then
               (case setWindowLevelPresetById v 0 (Some True) of
                  Inl e \<Rightarrow> Inl e
                | Inr v1 \<Rightarrow> Inr (currentWl v1, v1))
             else Inr (currentWl v, v))"

text \<open>
  The block of \<^verbatim>\<open>getCurrentWindowLut\<close> that gets the window LUT for the RSI of the
  call: the cached one, or a new one, built on a RescaleLut of the RSI at slice 0 and stored
  with \<^verbatim>\<open>addWindowLut\<close>. It gives the address of the LUT.
\<close>

definition lookupWindowLut :: "view \<Rightarrow> rsi \<Rightarrow> nat \<times> view" where
  "lookupWindowLut v rsi =
     (case windowLuts v rsi of
        Some a \<Rightarrow> (a, v)
      | None \<Rightarrow>
          let rescaleLut = \<lparr>rl_rsi = rsiAtSlice (v_image v) 0,
                            rl_bitsStored = bitsStored (v_image v)\<rparr>;
              windowLut = \<lparr>wlut_rescaleLut = rescaleLut, wlut_isSigned = isSigned (v_image v),
                           wlut_windowLevel = None, wlut_isReady = False\<rparr>;
              a = length (lutStore v);
              v1 = v\<lparr>lutStore := lutStore v @ [windowLut]\<rparr>
          in (a, case addWindowLut v1 a of Inl (e, v2) \<Rightarrow> v2 | Inr v2 \<Rightarrow> v2))"

definition getCurrentWindowLut ::
  "view \<Rightarrow> rsi option \<Rightarrow> (error \<times> view) + (nat \<times> view)" where
  "getCurrentWindowLut v0 rsi_arg =
     (let v1 = (if getCurrentIndex v0 = None then setInitialIndex v0 else v0);
          currentIndex = getCurrentIndex v1;
          rsi = (case rsi_arg of None \<Rightarrow> rsiAtIndex (v_image v1) currentIndex | Some r \<Rightarrow> r)
      in case resolveWindowLevel v1 currentIndex of
           Inl e \<Rightarrow> Inl e
         | Inr (wl, v2) \<Rightarrow>
             let (a, v3) = lookupWindowLut v2 rsi
             in if a < length (lutStore v3) then
                  (case wl of
                     None \<Rightarrow> Inl (TypeError, v3)
                   | Some w \<Rightarrow>
                       let wlut = lutStore v3 ! a;
                           lutWl = wlut_windowLevel wlut
                       in if \<not> WindowLevel_equals w lutWl then
                            let v4 = v3\<lparr>lutStore := (lutStore v3)
                                       [a := wlut\<lparr>wlut_windowLevel := Some w,
                                                  wlut_isReady := True\<rparr>]\<rparr>
                            in if (case lutWl of
                                     None \<Rightarrow> True
                                   | Some l \<Rightarrow> wl_width l \<noteq> wl_width w
                                              \<or> wl_center l \<noteq> wl_center w)
                               then Inr (a, fireEvent v4 (WlChange (wl_center w) (wl_width w) True))
                               else Inr (a, v4)
                          else Inr (a, v3))
                else Inl (TypeError, v3))"

subsection \<open>Stepping the index\<close>

text \<open>
  Modelled from the spec: \<^verbatim>\<open>dwv.math.Index.add\<close> is not part of the two source files;
  the spec gives Index an element-wise addition of indices of equal length.
\<close>

definition Index_add :: "index \<Rightarrow> index \<Rightarrow> index" where
  "Index_add this rhs = map2 (+) this rhs"

definition stepIndex :: "view \<Rightarrow> nat \<Rightarrow> int \<Rightarrow> bool option \<Rightarrow> (error \<times> view) + (bool \<times> view)" where
  "stepIndex v d step silent =
     (case getCurrentIndex v of
        None \<Rightarrow> Inl (TypeError, v)
      | Some index \<Rightarrow>
          let values = replicate (length index) 0;
              values' = (if d < length values then values[d := step] else values)
          in Inr (setCurrentIndex v (Index_add index values') silent))"

definition incrementIndex :: "view \<Rightarrow> nat \<Rightarrow> bool option \<Rightarrow> (error \<times> view) + (bool \<times> view)" where
  "incrementIndex v d silent = stepIndex v d 1 silent"

definition decrementIndex :: "view \<Rightarrow> nat \<Rightarrow> bool option \<Rightarrow> (error \<times> view) + (bool \<times> view)" where
  "decrementIndex v d silent = stepIndex v d (- 1) silent"

subsection \<open>The operations of the View as a whole\<close>

text \<open>
  The state-changing methods of the View that the model covers, and the View each leaves
  behind, whether it returns or throws.
\<close>

datatype view_op =
    OpSetImage dwv_image
  | OpSetOrientation "nat option"
  | OpSetInitialIndex
  | OpGetCurrentWindowLut "rsi option"
  | OpAddWindowLut nat
  | OpSetWindowPresets registry
  | OpAddWindowPresets presets
  | OpSetCurrentPosition point "bool option"
  | OpSetCurrentIndex index "bool option"
  | OpSetWindowLevel real real "string option" "bool option"
  | OpSetWindowLevelPreset "string option" "bool option"
  | OpSetWindowLevelPresetById nat "bool option"
  | OpSetWindowLevelMinMax
  | OpIncrementIndex nat "bool option"
  | OpDecrementIndex nat "bool option"

definition after :: "(error \<times> view) + view \<Rightarrow> view" where
  "after r = (case r of Inl (e, v) \<Rightarrow> v | Inr v \<Rightarrow> v)"

definition after_snd :: "(error \<times> view) + ('a \<times> view) \<Rightarrow> view" where
  "after_snd r = (case r of Inl (e, v) \<Rightarrow> v | Inr (x, v) \<Rightarrow> v)"

fun applyOp :: "view \<Rightarrow> view_op \<Rightarrow> view" where
  "applyOp v (OpSetImage inImage) = v\<lparr>v_image := inImage\<rparr>"
| "applyOp v (OpSetOrientation mat33) = v\<lparr>orientation := mat33\<rparr>"
| "applyOp v OpSetInitialIndex = setInitialIndex v"
| "applyOp v (OpGetCurrentWindowLut rsi) = after_snd (getCurrentWindowLut v rsi)"
| "applyOp v (OpAddWindowLut a) = after (addWindowLut v a)"
| "applyOp v (OpSetWindowPresets ps) = setWindowPresets v ps"
| "applyOp v (OpAddWindowPresets ps) = after (addWindowPresets v ps)"
| "applyOp v (OpSetCurrentPosition position silent) = snd (setCurrentPosition v position silent)"
| "applyOp v (OpSetCurrentIndex index silent) = snd (setCurrentIndex v index silent)"
| "applyOp v (OpSetWindowLevel center width name silent) =
     setWindowLevel v center width name silent"
| "applyOp v (OpSetWindowLevelPreset name silent) = after (setWindowLevelPreset v name silent)"
| "applyOp v (OpSetWindowLevelPresetById n silent) =
     after (setWindowLevelPresetById v n silent)"
| "applyOp v OpSetWindowLevelMinMax = setWindowLevelMinMax v"
| "applyOp v (OpIncrementIndex d silent) = after_snd (incrementIndex v d silent)"
| "applyOp v (OpDecrementIndex d silent) = after_snd (decrementIndex v d silent)"

fun replacesRegistry :: "view_op \<Rightarrow> bool" where
  "replacesRegistry (OpSetWindowPresets ps) = True"
| "replacesRegistry _ = False"

definition applyOps :: "view \<Rightarrow> view_op list \<Rightarrow> view" where
  "applyOps v ops = fold (\<lambda>op s. applyOp s op) ops v"

text \<open>Whether the registry of a View holds a per-slice preset under a name.\<close>

definition persliceAt :: "view \<Rightarrow> string \<Rightarrow> bool" where
  "persliceAt v key =
     (case getProperty (presetObjects v) (windowPresets v) key of
        Some x \<Rightarrow> isPerslice (presetObjects v) x
      | None \<Rightarrow> False)"

section \<open>The Stage of dwv (src/gui/stage.js)\<close>

subsection \<open>Binders, events and layer groups\<close>

datatype binder_kind =
  WindowLevelBinder | PositionBinder | ZoomBinder | OffsetBinder | OpacityBinder

fun getEventType :: "binder_kind \<Rightarrow> string" where
  "getEventType WindowLevelBinder = ''wlchange''"
| "getEventType PositionBinder = ''positionchange''"
| "getEventType ZoomBinder = ''zoomchange''"
| "getEventType OffsetBinder = ''offsetchange''"
| "getEventType OpacityBinder = ''opacitychange''"

text \<open>
  Binders and callbacks are JavaScript objects compared with \<^verbatim>\<open>===\<close>: each carries the
  number of its allocation as its identity. A callback is the closure that
  \<^verbatim>\<open>getBinderCallback\<close> creates, with the two variables it captures.
\<close>

datatype layerBinder = Binder (b_ref: nat) (b_kind: binder_kind)

datatype callback = Callback (cb_ref: nat) (cb_binder: layerBinder) (cb_index: nat)

record gui_event =
  ev_type :: string
  ev_value :: "real list"
  ev_dataindex :: "nat option"

text \<open>
  Modelled from the spec: \<^verbatim>\<open>dwv.gui.LayerGroup\<close> and the listener handler behind its
  \<^verbatim>\<open>addEventListener\<close>, \<^verbatim>\<open>removeEventListener\<close> and event firing are not part of the
  two source files. Following the spec, listeners are kept per event type in registration
  order, are removed by reference identity, and firing an event is a direct, nested,
  synchronous call of every registered listener in that order. Of a layer group the model
  keeps its listeners, the data index of each of its view layers, the sequence of binder
  translations that have reached one of its setters (\<open>lg_applied\<close>: one entry per call of
  a setter of the group), and \<open>lg_fires\<close>: whether the group fires its own event when a
  change is applied to it (a View fires wlchange only when the level really changes).
  \<^verbatim>\<open>getViewLayersByDataIndex\<close> gives the positions of the view layers of a data index,
  none for an undefined index. The listeners of a layer group that do not belong to the
  Stage are left out.
\<close>

record layerGroup =
  lg_listeners :: "string \<Rightarrow> callback list"
  lg_dataIndices :: "nat list"
  lg_applied :: "(binder_kind \<times> gui_event) list"
  lg_fires :: "gui_event \<Rightarrow> bool"

definition lg_addEventListener :: "layerGroup \<Rightarrow> string \<Rightarrow> callback \<Rightarrow> layerGroup" where
  "lg_addEventListener lg type cb =
     lg\<lparr>lg_listeners := (lg_listeners lg)(type := lg_listeners lg type @ [cb])\<rparr>"

definition lg_removeEventListener :: "layerGroup \<Rightarrow> string \<Rightarrow> callback \<Rightarrow> layerGroup" where
  "lg_removeEventListener lg type cb =
     lg\<lparr>lg_listeners :=
          (lg_listeners lg)(type := filter (\<lambda>c. cb_ref c \<noteq> cb_ref cb) (lg_listeners lg type))\<rparr>"

definition getViewLayersByDataIndex :: "layerGroup \<Rightarrow> nat option \<Rightarrow> nat list" where
  "getViewLayersByDataIndex lg dataindex =
     (case dataindex of
        None \<Rightarrow> []
      | Some d \<Rightarrow> filter (\<lambda>i. lg_dataIndices lg ! i = d) [0..<length (lg_dataIndices lg)])"

subsection \<open>The Stage\<close>

text \<open>
  The private variables of the Stage closure. The callback store is \<^verbatim>\<open>null\<close> or an
  array whose elements are \<^verbatim>\<open>undefined\<close> or a list of (binder, callback) objects;
  \<open>nextRef\<close> numbers the closures allocated so far.
\<close>

record stage =
  layerGroups :: "layerGroup list"
  binders :: "layerBinder list"
  callbackStore :: "(nat \<Rightarrow> (layerBinder \<times> callback) list option) option"
  nextRef :: nat

text \<open>A loop whose body may throw: the bodies run in order, up to the first throw.\<close>

fun forEach :: "('a \<Rightarrow> stage \<Rightarrow> error + stage) \<Rightarrow> 'a list \<Rightarrow> stage \<Rightarrow> error + stage" where
  "forEach body [] st = Inr st"
| "forEach body (x # xs) st =
     (case body x st of Inl e \<Rightarrow> Inl e | Inr st1 \<Rightarrow> forEach body xs st1)"

definition getBinderCallback :: "stage \<Rightarrow> layerBinder \<Rightarrow> nat \<Rightarrow> error + (callback \<times> stage)" where
  "getBinderCallback st binder index =
     (case callbackStore st of
        None \<Rightarrow> Inl TypeError
      | Some store0 \<Rightarrow>
          let store = (if store0 index = None then store0(index \<mapsto> []) else store0);
              entries = (case store index of Some l \<Rightarrow> l | None \<Rightarrow> [])
          in case find (\<lambda>elem. fst elem = binder) entries of
               Some binderObj \<Rightarrow> Inr (snd binderObj, st\<lparr>callbackStore := Some store\<rparr>)
             | None \<Rightarrow>
                 let cb = Callback (nextRef st) binder index
                 in Inr (cb, st\<lparr>callbackStore := Some (store(index \<mapsto> entries @ [(binder, cb)])),
                               nextRef := Suc (nextRef st)\<rparr>))"

definition addEventListeners :: "stage \<Rightarrow> nat \<Rightarrow> layerBinder \<Rightarrow> error + stage" where
  "addEventListeners st index binder =
     forEach
       (\<lambda>i s.
          if i \<noteq> index then
            if index < length (layerGroups s) then
              (case getBinderCallback s binder i of
                 Inl e \<Rightarrow> Inl e
               | Inr (cb, s1) \<Rightarrow>
                   Inr (s1\<lparr>layerGroups := (layerGroups s1)
                            [index := lg_addEventListener (layerGroups s1 ! index)
                                        (getEventType (b_kind binder)) cb]\<rparr>))
            else Inl TypeError
          else Inr s)
       [0..<length (layerGroups st)] st"

definition removeEventListeners :: "stage \<Rightarrow> nat \<Rightarrow> layerBinder \<Rightarrow> error + stage" where
  "removeEventListeners st index binder =
     forEach
       (\<lambda>i s.
          if i \<noteq> index then
            if index < length (layerGroups s) then
              (case getBinderCallback s binder i of
                 Inl e \<Rightarrow> Inl e
               | Inr (cb, s1) \<Rightarrow>
                   Inr (s1\<lparr>layerGroups := (layerGroups s1)
                            [index := lg_removeEventListener (layerGroups s1 ! index)
                                        (getEventType (b_kind binder)) cb]\<rparr>))
            else Inl TypeError
          else Inr s)
       [0..<length (layerGroups st)] st"

definition bindLayerGroups :: "stage \<Rightarrow> error + stage" where
  "bindLayerGroups st =
     (if length (layerGroups st) = 0 \<or> length (layerGroups st) = 1 \<or> length (binders st) = 0
      then Inr st
      else
        forEach (\<lambda>i. forEach (\<lambda>b s. addEventListeners s i b) (binders st))
          [0..<length (layerGroups st)]
          (st\<lparr>callbackStore := Some (\<lambda>_. None)\<rparr>))"

definition unbindLayerGroups :: "stage \<Rightarrow> error + stage" where
  "unbindLayerGroups st =
     (if length (layerGroups st) = 0 \<or> length (layerGroups st) = 1 \<or> length (binders st) = 0
         \<or> callbackStore st = None
      then Inr st
      else
        (case forEach (\<lambda>i. forEach (\<lambda>b s. removeEventListeners s i b) (binders st))
                [0..<length (layerGroups st)] st of
           Inl e \<Rightarrow> Inl e
         | Inr st1 \<Rightarrow> Inr (st1\<lparr>callbackStore := None\<rparr>)))"

text \<open>The list given to \<^verbatim>\<open>setBinders\<close> is \<open>None\<close> when it is null or undefined.\<close>

definition setBinders :: "stage \<Rightarrow> layerBinder list option \<Rightarrow> error + stage" where
  "setBinders st list =
     (case list of
        None \<Rightarrow> Inl (Error ''Cannot set null or undefined binders'')
      | Some l \<Rightarrow>
          (case (if length (binders st) \<noteq> 0 then unbindLayerGroups st else Inr st) of
             Inl e \<Rightarrow> Inl e
           | Inr st1 \<Rightarrow> bindLayerGroups (st1\<lparr>binders := l\<rparr>)))"

subsection \<open>Firing an event on a layer group\<close>

text \<open>
  What the callback of a binder does to a layer group (the five \<^verbatim>\<open>getCallback\<close> of the
  source): whether it reaches a setter of the group. The window/level and opacity binders
  act on the first view layer of the data index of the event, when there is one; the
  position binder acts on the active view layer (reading it is taken to be a TypeError in
  a layer group without view layer); the zoom and offset binders act on the group itself.
\<close>

fun binderApplies :: "binder_kind \<Rightarrow> layerGroup \<Rightarrow> gui_event \<Rightarrow> error + bool" where
  "binderApplies WindowLevelBinder lg event =
     Inr (length (getViewLayersByDataIndex lg (ev_dataindex event)) \<noteq> 0)"
| "binderApplies PositionBinder lg event =
     (if lg_dataIndices lg = [] then Inl TypeError else Inr True)"
| "binderApplies ZoomBinder lg event = Inr True"
| "binderApplies OffsetBinder lg event = Inr True"
| "binderApplies OpacityBinder lg event =
     (if ev_dataindex event = None then Inr False
      else Inr (length (getViewLayersByDataIndex lg (ev_dataindex event)) \<noteq> 0))"

text \<open>
  Modelled from the spec: applying a synchronized change to a layer group makes the group
  fire its own instance of the same event type. \<open>applyBinder\<close> records the call of the
  setter and then, when the group fires, runs the dispatch \<open>fire\<close> on the group, nested
  inside the call. A result \<open>None\<close> is a dispatch that has not returned.
\<close>

definition applyBinder ::
  "(stage \<Rightarrow> nat \<Rightarrow> gui_event \<Rightarrow> (error + stage) option) \<Rightarrow>
   stage \<Rightarrow> layerBinder \<Rightarrow> nat \<Rightarrow> gui_event \<Rightarrow> (error + stage) option" where
  "applyBinder fire st binder index event =
     (if index < length (layerGroups st) then
        let lg = layerGroups st ! index in
        case binderApplies (b_kind binder) lg event of
          Inl e \<Rightarrow> Some (Inl e)
        | Inr False \<Rightarrow> Some (Inr st)
        | Inr True \<Rightarrow>
            let st1 = st\<lparr>layerGroups := (layerGroups st)
                         [index := lg\<lparr>lg_applied := lg_applied lg @ [(b_kind binder, event)]\<rparr>]\<rparr>
            in if lg_fires lg event
               then fire st1 index (event\<lparr>ev_type := getEventType (b_kind binder)\<rparr>)
               else Some (Inr st1)
      else Some (Inl TypeError))"

text \<open>
  The body of the closure created in \<^verbatim>\<open>getBinderCallback\<close>: stop the listeners of the
  group of the callback, apply the binder to it, restart the listeners.
\<close>

definition binderCallback ::
  "(stage \<Rightarrow> nat \<Rightarrow> gui_event \<Rightarrow> (error + stage) option) \<Rightarrow>
   stage \<Rightarrow> callback \<Rightarrow> gui_event \<Rightarrow> (error + stage) option" where
  "binderCallback fire st cb event =
     (case removeEventListeners st (cb_index cb) (cb_binder cb) of
        Inl e \<Rightarrow> Some (Inl e)
      | Inr st1 \<Rightarrow>
          (case applyBinder fire st1 (cb_binder cb) (cb_index cb) event of
             None \<Rightarrow> None
           | Some (Inl e) \<Rightarrow> Some (Inl e)
           | Some (Inr st2) \<Rightarrow> Some (addEventListeners st2 (cb_index cb) (cb_binder cb))))"

fun callListeners ::
  "(stage \<Rightarrow> callback \<Rightarrow> (error + stage) option) \<Rightarrow> callback list \<Rightarrow> stage \<Rightarrow>
   (error + stage) option" where
  "callListeners call [] st = Some (Inr st)"
| "callListeners call (cb # cbs) st =
     (case call st cb of
        None \<Rightarrow> None
      | Some (Inl e) \<Rightarrow> Some (Inl e)
      | Some (Inr st1) \<Rightarrow> callListeners call cbs st1)"

text \<open>
  Firing an event on layer group \<open>g\<close>: the listeners registered for the type of the event
  at that moment are called in order. The dispatch is nested (a listener applies a change
  that fires an event); the first argument bounds the depth of nesting, and \<open>None\<close>
  means that the bound was reached.
\<close>

primrec lg_fireEvent :: "nat \<Rightarrow> stage \<Rightarrow> nat \<Rightarrow> gui_event \<Rightarrow> (error + stage) option" where
  "lg_fireEvent 0 st g event = None"
| "lg_fireEvent (Suc depth) st g event =
     (if g < length (layerGroups st)
      then callListeners (\<lambda>s cb. binderCallback (lg_fireEvent depth) s cb event)
             (lg_listeners (layerGroups st ! g) (ev_type event)) st
      else Some (Inl TypeError))"

text \<open>The callback that the store holds for a binder and a layer group index.\<close>

definition storedCallback :: "stage \<Rightarrow> layerBinder \<Rightarrow> nat \<Rightarrow> callback option" where
  "storedCallback st binder index =
     (case callbackStore st of
        None \<Rightarrow> None
      | Some store \<Rightarrow>
          (case store index of
             None \<Rightarrow> None
           | Some entries \<Rightarrow> map_option snd (find (\<lambda>elem. fst elem = binder) entries)))"

subsection \<open>Bound stages\<close>

text \<open>
  Notions used to state the properties of a bound Stage. \<open>setListeners\<close> replaces the
  listeners of one layer group for one event type, \<open>recordApplied\<close> appends to the
  record of setter calls of one layer group, \<open>syncListeners\<close> lists the stored callbacks
  of a binder for the peers of a layer group, in index order.
\<close>

definition setListeners :: "stage \<Rightarrow> nat \<Rightarrow> string \<Rightarrow> callback list \<Rightarrow> stage" where
  "setListeners st g type cbs =
     st\<lparr>layerGroups := (layerGroups st)
          [g := (layerGroups st ! g)
                  \<lparr>lg_listeners := (lg_listeners (layerGroups st ! g))(type := cbs)\<rparr>]\<rparr>"

definition recordApplied ::
  "stage \<Rightarrow> nat \<Rightarrow> (binder_kind \<times> gui_event) list \<Rightarrow> stage" where
  "recordApplied st g calls =
     st\<lparr>layerGroups := (layerGroups st)
          [g := (layerGroups st ! g)\<lparr>lg_applied := lg_applied (layerGroups st ! g) @ calls\<rparr>]\<rparr>"

definition syncListeners :: "stage \<Rightarrow> layerBinder \<Rightarrow> nat \<Rightarrow> callback list" where
  "syncListeners st b g =
     map (\<lambda>i. the (storedCallback st b i))
       (filter (\<lambda>i. i \<noteq> g) [0..<length (layerGroups st)])"

text \<open>
  A Stage is wired for a binder when the store holds a callback of the binder for every
  layer group, each capturing that binder and that index, and every layer group listens,
  for the event type of the binder, with the callbacks of its peers and nothing else.
\<close>

definition wired :: "stage \<Rightarrow> layerBinder \<Rightarrow> bool" where
  "wired st b =
     (callbackStore st \<noteq> None
      \<and> list_all
          (\<lambda>i. case storedCallback st b i of
                 None \<Rightarrow> False
               | Some c \<Rightarrow> cb_binder c = b \<and> cb_index c = i)
          [0..<length (layerGroups st)]
      \<and> list_all
          (\<lambda>g. lg_listeners (layerGroups st ! g) (getEventType (b_kind b)) = syncListeners st b g)
          [0..<length (layerGroups st)])"

text \<open>
  Two relations between the stores of two states of a Stage: the later store holds every
  callback that the earlier one holds, and every stored callback captures the binder and
  the index it is stored under.
\<close>

definition storeExtends :: "stage \<Rightarrow> stage \<Rightarrow> bool" where
  "storeExtends st st' =
     (\<forall>b i c. storedCallback st b i = Some c \<longrightarrow> storedCallback st' b i = Some c)"

definition storeWellFormed :: "stage \<Rightarrow> bool" where
  "storeWellFormed st =
     (\<forall>b i c. storedCallback st b i = Some c \<longrightarrow> cb_binder c = b \<and> cb_index c = i)"

subsection \<open>A concrete image and view\<close>

text \<open>
  A three-dimensional image of size 2 x 2 x 3 with identity calibration and a flat data
  range, and a freshly constructed View of it (the variable initialisers of the View
  constructor). They serve as concrete inputs.
\<close>

definition test_geometry :: geometry where
  "test_geometry =
     \<lparr>geo_sizeLength = 3,
      worldToIndex = map floor,
      indexToWorld = map of_int,
      isIndexInBounds =
        (\<lambda>index ds. length index = 3 \<and>
           list_all (\<lambda>d. d < 3 \<and> 0 \<le> index ! d \<and> index ! d < [2, 2, 3] ! d) ds)\<rparr>"

definition test_image :: dwv_image where
  "test_image =
     \<lparr>getGeometry = test_geometry,
      rsiAtIndex = (\<lambda>_. \<lparr>rsi_slope = 1, rsi_intercept = 0\<rparr>),
      rsiAtSlice = (\<lambda>_. \<lparr>rsi_slope = 1, rsi_intercept = 0\<rparr>),
      bitsStored = 16,
      isSigned = False,
      getSecondaryOffset = (\<lambda>i. case i of None \<Rightarrow> 0 | Some ix \<Rightarrow> nat (ix ! 2)),
      rangeMin = 100,
      rangeMax = 100,
      canQuantify = True,
      getRescaledValueAtIndex = (\<lambda>_. 0),
      getImageUid = (\<lambda>_. ''uid'')\<rparr>"

text \<open>
  Preset objects: the one a fresh View has under minmax, a per-slice preset with one value
  per slice, a plain preset, and a per-slice preset for the name minmax that carries no
  values. They are the objects 0 to 3 of the store.
\<close>

definition preset_minmax :: windowPreset where
  "preset_minmax = \<lparr>wp_name = ''minmax'', wp_wl = None, wp_perslice = None\<rparr>"

definition preset_ct :: windowPreset where
  "preset_ct =
     \<lparr>wp_name = ''ct'',
      wp_wl = Some [\<lparr>wl_center = 40, wl_width = 400\<rparr>, \<lparr>wl_center = 50, wl_width = 350\<rparr>,
                    \<lparr>wl_center = 60, wl_width = 300\<rparr>],
      wp_perslice = Some True\<rparr>"

definition preset_lung :: windowPreset where
  "preset_lung =
     \<lparr>wp_name = ''lung'', wp_wl = Some [\<lparr>wl_center = - 500, wl_width = 1500\<rparr>],
      wp_perslice = None\<rparr>"

definition preset_minmax_perslice :: windowPreset where
  "preset_minmax_perslice = \<lparr>wp_name = ''minmax'', wp_wl = None, wp_perslice = Some True\<rparr>"

definition test_presets :: "presetRef \<Rightarrow> windowPreset" where
  "test_presets =
     (\<lambda>_. preset_lung)(0 := preset_minmax, 1 := preset_ct, 2 := preset_lung,
                         3 := preset_minmax_perslice)"

text \<open>
  The fresh View, the View with the per-slice preset installed under ct, and the View that
  has the per-slice preset without values as its minmax preset.
\<close>

definition test_view :: view where
  "test_view =
     \<lparr>v_image = test_image,
      lutStore = [],
      windowLuts = (\<lambda>_. None),
      presetObjects = test_presets,
      windowPresets = \<lparr>reg_own = [(''minmax'', 0)], reg_proto = None\<rparr>,
      currentPresetName = None,
      currentWl = None,
      currentPosition = None,
      orientation = None,
      fired = []\<rparr>"

definition test_view_ct :: view where
  "test_view_ct = test_view
     \<lparr>windowPresets := \<lparr>reg_own = [(''minmax'', 0), (''ct'', 1)], reg_proto = None\<rparr>\<rparr>"

definition test_view_pm :: view where
  "test_view_pm = test_view
     \<lparr>windowPresets := \<lparr>reg_own = [(''minmax'', 3)], reg_proto = None\<rparr>\<rparr>"

text \<open>An RSI that differs from the one the image has at slice 0.\<close>

definition test_rsi :: rsi where
  "test_rsi = \<lparr>rsi_slope = 2, rsi_intercept = 5\<rparr>"

text \<open>
  The View after a first and after a second call of \<^verbatim>\<open>getCurrentWindowLut\<close> with
  \<open>test_rsi\<close>, starting from \<open>test_view\<close>.
\<close>

definition test_wl :: windowLevel where
  "test_wl = \<lparr>wl_center = 201 / 2, wl_width = 1\<rparr>"

definition test_lut :: windowLut where
  "test_lut = \<lparr>wlut_rescaleLut = \<lparr>rl_rsi = \<lparr>rsi_slope = 1, rsi_intercept = 0\<rparr>, rl_bitsStored = 16\<rparr>,
      wlut_isSigned = False,
      wlut_windowLevel = Some test_wl,
      wlut_isReady = True\<rparr>"

definition test_view1 :: view where
  "test_view1 = test_view
     \<lparr>lutStore := [test_lut],
      windowLuts := (\<lambda>_. None)(\<lparr>rsi_slope = 1, rsi_intercept = 0\<rparr> \<mapsto> 0),
      presetObjects := test_presets(0 := preset_minmax\<lparr>wp_wl := Some [test_wl]\<rparr>),
      currentPresetName := Some ''minmax'',
      currentWl := Some test_wl,
      currentPosition := Some [0, 0, 0],
      fired := [WlChange (201 / 2) 1 True, WlChange (201 / 2) 1 True]\<rparr>"

definition test_view2 :: view where
  "test_view2 = test_view1
     \<lparr>lutStore := [test_lut, test_lut],
      windowLuts := (\<lambda>_. None)(\<lparr>rsi_slope = 1, rsi_intercept = 0\<rparr> \<mapsto> 1),
      fired := [WlChange (201 / 2) 1 True, WlChange (201 / 2) 1 True, WlChange (201 / 2) 1 True]\<rparr>"

subsection \<open>Concrete stages\<close>

text \<open>
  A layer group showing data 0 that fires its own event whenever a change is applied to
  it, a window/level binder and a position binder, the Stage of two such layer groups with
  the window/level binder and the Stage of three with both binders, not yet bound.
\<close>

definition test_lg :: layerGroup where
  "test_lg =
     \<lparr>lg_listeners = (\<lambda>_. []), lg_dataIndices = [0], lg_applied = [],
      lg_fires = (\<lambda>_. True)\<rparr>"

definition test_wlb :: layerBinder where
  "test_wlb = Binder 0 WindowLevelBinder"

definition test_stage2 :: stage where
  "test_stage2 =
     \<lparr>layerGroups = [test_lg, test_lg], binders = [test_wlb], callbackStore = None,
      nextRef = 0\<rparr>"

definition test_pb :: layerBinder where
  "test_pb = Binder 1 PositionBinder"

definition test_stage3 :: stage where
  "test_stage3 =
     \<lparr>layerGroups = [test_lg, test_lg, test_lg], binders = [test_pb, test_wlb],
      callbackStore = None, nextRef = 0\<rparr>"

definition test_event :: gui_event where
  "test_event = \<lparr>ev_type = ''wlchange'', ev_value = [40, 400], ev_dataindex = Some 0\<rparr>"

text \<open>
  The Stage of two layer groups after \<^verbatim>\<open>bindLayerGroups\<close>, after a following
  \<^verbatim>\<open>unbindLayerGroups\<close>, and after a second \<^verbatim>\<open>bindLayerGroups\<close>.
\<close>

definition test_stage2_bound :: stage where
  "test_stage2_bound =
     \<lparr>layerGroups =
        [test_lg\<lparr>lg_listeners := (\<lambda>_. [])(''wlchange'' := [Callback 0 test_wlb 1])\<rparr>,
         test_lg\<lparr>lg_listeners := (\<lambda>_. [])(''wlchange'' := [Callback 1 test_wlb 0])\<rparr>],
      binders = [test_wlb],
      callbackStore =
        Some ((\<lambda>_. None)(1 \<mapsto> [(test_wlb, Callback 0 test_wlb 1)],
                            0 \<mapsto> [(test_wlb, Callback 1 test_wlb 0)])),
      nextRef = 2\<rparr>"

definition test_stage2_unbound :: stage where
  "test_stage2_unbound = test_stage2\<lparr>nextRef := 2\<rparr>"

definition test_stage2_rebound :: stage where
  "test_stage2_rebound =
     \<lparr>layerGroups =
        [test_lg\<lparr>lg_listeners := (\<lambda>_. [])(''wlchange'' := [Callback 2 test_wlb 1])\<rparr>,
         test_lg\<lparr>lg_listeners := (\<lambda>_. [])(''wlchange'' := [Callback 3 test_wlb 0])\<rparr>],
      binders = [test_wlb],
      callbackStore =
        Some ((\<lambda>_. None)(1 \<mapsto> [(test_wlb, Callback 2 test_wlb 1)],
                            0 \<mapsto> [(test_wlb, Callback 3 test_wlb 0)])),
      nextRef = 4\<rparr>"

text \<open>
  A Stage of two layer groups of which the second shows data 1 only, before and after
  \<^verbatim>\<open>bindLayerGroups\<close>.
\<close>

definition test_stage_other :: stage where
  "test_stage_other =
     \<lparr>layerGroups = [test_lg, test_lg\<lparr>lg_dataIndices := [1]\<rparr>], binders = [test_wlb],
      callbackStore = None, nextRef = 0\<rparr>"

definition test_stage_other_bound :: stage where
  "test_stage_other_bound =
     \<lparr>layerGroups =
        [test_lg\<lparr>lg_listeners := (\<lambda>_. [])(''wlchange'' := [Callback 0 test_wlb 1])\<rparr>,
         test_lg\<lparr>lg_listeners := (\<lambda>_. [])(''wlchange'' := [Callback 1 test_wlb 0]),
                 lg_dataIndices := [1]\<rparr>],
      binders = [test_wlb],
      callbackStore =
        Some ((\<lambda>_. None)(1 \<mapsto> [(test_wlb, Callback 0 test_wlb 1)],
                            0 \<mapsto> [(test_wlb, Callback 1 test_wlb 0)])),
      nextRef = 2\<rparr>"

section \<open>Theorems\<close>

subsection \<open>Window/level of the View\<close>

text \<open>
  C5. A window width below one is rejected by \<open>setWindowLevel\<close>: whatever the centre,
  the preset name, the silent flag and the prior state, the View comes back unchanged, so
  the current window level and the current preset name are the same and no event has been
  fired.
\<close>

theorem setWindowLevel_rejects_small_width:
  assumes "w < 1"
  shows "setWindowLevel v c w name silent = v
         \<and> currentWl (setWindowLevel v c w name silent) = currentWl v
         \<and> currentPresetName (setWindowLevel v c w name silent) = currentPresetName v
         \<and> fired (setWindowLevel v c w name silent) = fired v"
  using assms by (simp add: setWindowLevel_def)

theorem setWindowLevel_rejects_small_width_witness:
  "(0::real) < 1 \<and> setWindowLevel test_view 40 0 (Some ''abdomen'') None = test_view"
  using setWindowLevel_rejects_small_width [of 0 test_view 40 "Some ''abdomen''" None]
  by simp

text \<open>
  C9. \<open>getWindowLevelMinMax\<close> gives width = max - min, clamped to 1 when below 1, and
  center = min + width / 2 with the clamped width; for a range [100, 100] the width is 1
  and the centre 100.5.
\<close>

theorem getWindowLevelMinMax_value:
  "wl_width (getWindowLevelMinMax v) =
     (if rangeMax (v_image v) - rangeMin (v_image v) < 1 then 1
      else rangeMax (v_image v) - rangeMin (v_image v))
   \<and> wl_center (getWindowLevelMinMax v) =
       rangeMin (v_image v) + wl_width (getWindowLevelMinMax v) / 2
   \<and> getWindowLevelMinMax (v\<lparr>v_image := (v_image v)\<lparr>rangeMin := 100, rangeMax := 100\<rparr>\<rparr>) =
       \<lparr>wl_center = 201 / 2, wl_width = 1\<rparr>"
  by (simp add: getWindowLevelMinMax_def Let_def)

subsection \<open>Index and position of the View\<close>

text \<open>
  C3. \<open>setCurrentIndex\<close> checks the index along the scroll dimension, plus dimension 3
  when the index has four components. Out of bounds it returns false and the View is
  unchanged (same position, no event). In bounds and not silent it returns true, the
  position is the world point of the index and exactly one event has been fired, a
  positionchange.
\<close>

theorem setCurrentIndex_bounds:
  "dirs v index = (if length index = 4 then [getScrollIndex v, 3] else [getScrollIndex v])
   \<and> (\<not> isIndexInBounds (getGeometry (v_image v)) index (dirs v index) \<longrightarrow>
        setCurrentIndex v index silent = (False, v))
   \<and> (isIndexInBounds (getGeometry (v_image v)) index (dirs v index)
        \<and> (silent = None \<or> silent = Some False) \<longrightarrow>
        (\<exists>dd uid px.
           setCurrentIndex v index silent =
             (True,
              v\<lparr>currentPosition := Some (indexToWorld (getGeometry (v_image v)) index),
                fired := fired v @
                  [PositionChange index (indexToWorld (getGeometry (v_image v)) index) dd uid px]\<rparr>)))"
  by (auto simp add: setCurrentIndex_def dirs_def Let_def fireEvent_def)

theorem setCurrentIndex_bounds_witness:
  "\<not> isIndexInBounds (getGeometry (v_image test_view)) [0, 0, 5] (dirs test_view [0, 0, 5])
   \<and> setCurrentIndex test_view [0, 0, 5] None = (False, test_view)
   \<and> isIndexInBounds (getGeometry (v_image test_view)) [0, 0, 1] (dirs test_view [0, 0, 1])
   \<and> fst (setCurrentIndex test_view [0, 0, 1] None)
   \<and> fired (snd (setCurrentIndex test_view [0, 0, 1] None)) =
       [PositionChange [0, 0, 1] [0, 0, 1] [0, 1, 2] ''uid'' (Some 0)]
   \<and> currentPosition (snd (setCurrentIndex test_view [0, 0, 1] None)) = Some [0, 0, 1]"
proof -
  have out: "\<not> isIndexInBounds (getGeometry (v_image test_view)) [0, 0, 5]
               (dirs test_view [0, 0, 5])"
    by (simp add: test_view_def test_image_def test_geometry_def dirs_def getScrollIndex_def)
  have inb: "isIndexInBounds (getGeometry (v_image test_view)) [0, 0, 1]
               (dirs test_view [0, 0, 1])"
    by (simp add: test_view_def test_image_def test_geometry_def dirs_def getScrollIndex_def)
  from setCurrentIndex_bounds [of test_view "[0, 0, 5]" None] out
  have a: "setCurrentIndex test_view [0, 0, 5] None = (False, test_view)"
    by blast
  from setCurrentIndex_bounds [of test_view "[0, 0, 1]" None] inb
  obtain dd uid px where b:
    "setCurrentIndex test_view [0, 0, 1] None =
       (True,
        test_view\<lparr>currentPosition :=
                    Some (indexToWorld (getGeometry (v_image test_view)) [0, 0, 1]),
                  fired := fired test_view @
                    [PositionChange [0, 0, 1]
                       (indexToWorld (getGeometry (v_image test_view)) [0, 0, 1]) dd uid px]\<rparr>)"
    by blast
  have c: "fired (snd (setCurrentIndex test_view [0, 0, 1] None)) =
             [PositionChange [0, 0, 1] [0, 0, 1] [0, 1, 2] ''uid'' (Some 0)]"
    using inb
    by (simp add: setCurrentIndex_def Let_def fireEvent_def diffDims_def getCurrentIndex_def
        test_view_def test_image_def test_geometry_def upt_rec)
  have d: "currentPosition (snd (setCurrentIndex test_view [0, 0, 1] None)) = Some [0, 0, 1]"
    using b by (simp add: test_view_def test_image_def test_geometry_def)
  have e: "fst (setCurrentIndex test_view [0, 0, 1] None)"
    using b by simp
  show ?thesis using out a inb c d e by blast
qed

lemma Index_compare_set:
  "length cur = length index \<Longrightarrow>
   set (Index_compare cur index) = {i. i < length index \<and> cur ! i \<noteq> index ! i}"
  by (auto simp add: Index_compare_def)

lemma Index_compare_empty:
  "length cur = length index \<Longrightarrow> (Index_compare cur index = []) = (cur = index)"
proof -
  assume len: "length cur = length index"
  have "(Index_compare cur index = []) = (\<forall>i<length cur. cur ! i = index ! i)"
    by (auto simp add: Index_compare_def filter_empty_conv)
  also have "\<dots> = (cur = index)"
    using len by (simp add: list_eq_iff_nth_eq)
  finally show ?thesis .
qed

text \<open>
  C4. The diff-dims list of a positionchange event fired by \<open>setCurrentIndex\<close> is
  \<open>diffDims\<close> of the previous index (the index of the position held before the call)
  and the new index. For indices of equal length it holds exactly the positions at which
  they differ, and is empty iff they are equal; for different lengths it holds the
  differing positions below the shorter length and every position from the shorter length
  up to the longer; with no previous position it holds every dimension of the new index.
  In all cases the positions are listed once, in increasing order.
\<close>

theorem diffDims_positionchange:
  "(isIndexInBounds (getGeometry (v_image v)) index (dirs v index)
      \<and> (silent = None \<or> silent = Some False) \<longrightarrow>
      (\<exists>uid px.
         fired (snd (setCurrentIndex v index silent)) =
           fired v @ [PositionChange index (indexToWorld (getGeometry (v_image v)) index)
                        (diffDims (getCurrentIndex v) index) uid px]))
   \<and> (length cur = length index \<longrightarrow>
        set (diffDims (Some cur) index) = {i. i < length index \<and> cur ! i \<noteq> index ! i}
        \<and> ((diffDims (Some cur) index = []) = (cur = index)))
   \<and> (length cur \<noteq> length index \<longrightarrow>
        set (diffDims (Some cur) index) =
          {i. i < min (length cur) (length index) \<and> cur ! i \<noteq> index ! i}
          \<union> {i. min (length cur) (length index) \<le> i \<and> i < max (length cur) (length index)})
   \<and> diffDims None index = [0..<length index]
   \<and> sorted (diffDims ci index) \<and> distinct (diffDims ci index)"
proof -
  have ev: "isIndexInBounds (getGeometry (v_image v)) index (dirs v index)
      \<and> (silent = None \<or> silent = Some False) \<longrightarrow>
      (\<exists>uid px.
         fired (snd (setCurrentIndex v index silent)) =
           fired v @ [PositionChange index (indexToWorld (getGeometry (v_image v)) index)
                        (diffDims (getCurrentIndex v) index) uid px])"
    by (cases silent) (auto simp add: setCurrentIndex_def Let_def fireEvent_def)
  have eq: "length cur = length index \<longrightarrow>
        set (diffDims (Some cur) index) = {i. i < length index \<and> cur ! i \<noteq> index ! i}
        \<and> ((diffDims (Some cur) index = []) = (cur = index))"
    by (simp add: diffDims_def Index_canCompare_def Index_compare_set Index_compare_empty)
  have ne: "length cur \<noteq> length index \<longrightarrow>
        set (diffDims (Some cur) index) =
          {i. i < min (length cur) (length index) \<and> cur ! i \<noteq> index ! i}
          \<union> {i. min (length cur) (length index) \<le> i \<and> i < max (length cur) (length index)}"
    by (auto simp add: diffDims_def Index_canCompare_def Let_def)
  have none: "diffDims None index = [0..<length index]"
    by (simp add: diffDims_def)
  have srt: "sorted (diffDims ci index) \<and> distinct (diffDims ci index)"
    by (cases ci)
      (auto simp add: diffDims_def Index_canCompare_def Index_compare_def Let_def
        sorted_append sorted_wrt_filter)
  from ev eq ne none srt show ?thesis by blast
qed

theorem diffDims_positionchange_witness:
  "isIndexInBounds (getGeometry (v_image (test_view\<lparr>currentPosition := Some [0, 0, 0]\<rparr>)))
     [0, 0, 1] (dirs (test_view\<lparr>currentPosition := Some [0, 0, 0]\<rparr>) [0, 0, 1])
   \<and> (\<exists>uid px.
         fired (snd (setCurrentIndex (test_view\<lparr>currentPosition := Some [0, 0, 0]\<rparr>) [0, 0, 1] None)) =
           [PositionChange [0, 0, 1] [0, 0, 1] [2] uid px])
   \<and> length [0, 0, 0 :: int] = length [0, 0, 1 :: int]
   \<and> diffDims (Some [0, 0, 0]) [0, 0, 1] = [2]
   \<and> length [0, 0, 0, 0 :: int] \<noteq> length [0, 0, 1 :: int]
   \<and> diffDims (Some [0, 0, 0, 0]) [0, 0, 1] = [2, 3]"
proof -
  let ?v = "test_view\<lparr>currentPosition := Some [0, 0, 0]\<rparr>"
  have inb: "isIndexInBounds (getGeometry (v_image ?v)) [0, 0, 1] (dirs ?v [0, 0, 1])"
    by (simp add: test_view_def test_image_def test_geometry_def dirs_def getScrollIndex_def)
  have d1: "diffDims (Some [0, 0, 0]) [0, 0, 1] = [2]"
    by code_simp
  have d2: "diffDims (Some [0, 0, 0, 0]) [0, 0, 1] = [2, 3]"
    by code_simp
  have ci: "getCurrentIndex ?v = Some [0, 0, 0]"
    by (simp add: getCurrentIndex_def test_view_def test_image_def test_geometry_def)
  from diffDims_positionchange [of ?v "[0, 0, 1]" None "[0, 0, 0]"] inb
  obtain uid px where f: "fired (snd (setCurrentIndex ?v [0, 0, 1] None)) =
      fired ?v @ [PositionChange [0, 0, 1] (indexToWorld (getGeometry (v_image ?v)) [0, 0, 1])
                        (diffDims (getCurrentIndex ?v) [0, 0, 1]) uid px]"
    by blast
  from diffDims_positionchange [of ?v "[0, 0, 1]" None "[0, 0, 0]"]
  have s1: "(diffDims (Some [0, 0, 0]) [0, 0, 1] = []) = ([0, 0, 0] = [0, 0, 1::int])"
    by simp
  from diffDims_positionchange [of ?v "[0, 0, 1]" None "[0, 0, 0, 0]"]
  have s2: "set (diffDims (Some [0, 0, 0, 0]) [0, 0, 1]) =
          {i. i < min (length [0, 0, 0, 0::int]) (length [0, 0, 1::int]) \<and> [0, 0, 0, 0::int] ! i \<noteq> [0, 0, 1] ! i}
          \<union> {i. min (length [0, 0, 0, 0::int]) (length [0, 0, 1::int]) \<le> i \<and> i < max (length [0, 0, 0, 0::int]) (length [0, 0, 1::int])}"
    by simp
  have w: "indexToWorld (getGeometry (v_image ?v)) [0, 0, 1] = [0, 0, 1]" and e: "fired ?v = []"
    by (simp_all add: test_view_def test_image_def test_geometry_def)
  have f': "\<exists>uid px. fired (snd (setCurrentIndex ?v [0, 0, 1] None)) =
       [PositionChange [0, 0, 1] [0, 0, 1] [2] uid px]"
    using f unfolding ci d1 w e by auto
  show ?thesis using inb f' d1 d2 s1 s2 by simp
qed


subsection \<open>The preset registry\<close>

lemma getProperty_own:
  "map_of (reg_own reg) k = Some r \<Longrightarrow> getProperty store reg k = Some (PresetObject r)"
  by (simp add: getProperty_def)

lemma getProperty_preset_cases:
  "getProperty store reg k = Some (PresetObject r) \<Longrightarrow>
   map_of (reg_own reg) k = Some r
   \<or> (map_of (reg_own reg) k = None \<and> k = ''__proto__'' \<and> reg_proto reg = Some r)"
  by (auto simp add: getProperty_def split: option.splits if_splits)

lemma getProperty_preset_store:
  "getProperty store reg k = Some (PresetObject r) \<Longrightarrow>
   getProperty store' reg k = Some (PresetObject r)"
  by (auto simp add: getProperty_def split: option.splits if_splits)

lemma map_of_insertOwn:
  "k \<notin> set (map fst xs) \<Longrightarrow>
   map_of (insertOwn k r xs) k' = (if k' = k then Some r else map_of xs k')"
  by (induction k r xs rule: insertOwn.induct) (auto split: option.splits)




lemma own_setProperty_other:
  "k' \<noteq> k \<Longrightarrow> map_of (reg_own (setProperty reg k r)) k' = map_of (reg_own reg) k'"
  by (auto simp add: setProperty_def update_conv' map_of_insertOwn)

lemma proto_setProperty:
  "k \<in> set (map fst (reg_own reg)) \<or> k \<noteq> ''__proto__'' \<Longrightarrow>
   reg_proto (setProperty reg k r) = reg_proto reg"
  by (auto simp add: setProperty_def)

lemma getProperty_setProperty_preset:
  assumes "k' \<noteq> k" and "getProperty store reg k' = Some (PresetObject q)"
  shows "getProperty store (setProperty reg k r) k' = Some (PresetObject q)"
proof -
  from getProperty_preset_cases [OF assms(2)] show ?thesis
  proof
    assume "map_of (reg_own reg) k' = Some q"
    then have "map_of (reg_own (setProperty reg k r)) k' = Some q"
      using assms(1) by (simp add: own_setProperty_other)
    then show ?thesis by (rule getProperty_own)
  next
    assume h: "map_of (reg_own reg) k' = None \<and> k' = ''__proto__'' \<and> reg_proto reg = Some q"
    then have "k \<noteq> ''__proto__''" using assms(1) by simp
    then have "reg_proto (setProperty reg k r) = Some q"
      using h by (simp add: proto_setProperty)
    moreover have "map_of (reg_own (setProperty reg k r)) k' = None"
      using h assms(1) by (auto simp add: own_setProperty_other)
    ultimately show ?thesis using h by (simp add: getProperty_def)
  qed
qed

lemma getProperty_setProperty_preset_rev:
  assumes "k' \<noteq> k" and "getProperty store (setProperty reg k r) k' = Some (PresetObject q)"
  shows "getProperty store reg k' = Some (PresetObject q)"
proof -
  from getProperty_preset_cases [OF assms(2)] show ?thesis
  proof
    assume "map_of (reg_own (setProperty reg k r)) k' = Some q"
    then have "map_of (reg_own reg) k' = Some q"
      using assms(1) by (simp add: own_setProperty_other)
    then show ?thesis by (rule getProperty_own)
  next
    assume h: "map_of (reg_own (setProperty reg k r)) k' = None \<and> k' = ''__proto__''
               \<and> reg_proto (setProperty reg k r) = Some q"
    then have "k \<noteq> ''__proto__''" using assms(1) by simp
    then have "reg_proto reg = Some q"
      using h by (simp add: proto_setProperty)
    moreover have "map_of (reg_own reg) k' = None"
      using h assms(1) by (auto simp add: own_setProperty_other)
    ultimately show ?thesis using h by (simp add: getProperty_def)
  qed
qed

lemma persliceAt_preset:
  "persliceAt v k =
     (\<exists>r. getProperty (presetObjects v) (windowPresets v) k = Some (PresetObject r)
          \<and> wp_perslice (presetObjects v r) = Some True)"
proof (cases "getProperty (presetObjects v) (windowPresets v) k")
  case None
  then show ?thesis by (simp add: persliceAt_def)
next
  case (Some x)
  then show ?thesis by (cases x) (simp_all add: persliceAt_def)
qed

lemma persliceAt_setProperty:
  assumes "k' \<noteq> k" and "presetObjects v' = presetObjects v"
    and "windowPresets v' = setProperty (windowPresets v) k r"
  shows "persliceAt v' k' = persliceAt v k'"
  unfolding persliceAt_preset assms(2,3)
  using getProperty_setProperty_preset [OF assms(1)]
    getProperty_setProperty_preset_rev [OF assms(1)]
  by blast

lemma addWindowPresets_throw:
  "persliceAt v key \<Longrightarrow>
   addWindowPresets v ((key, r) # qs) = Inl (Error ''Cannot add perslice preset'', v)"
  by (auto simp add: persliceAt_def split: option.splits)

lemma addWindowPresets_step:
  "\<not> persliceAt v key \<Longrightarrow>
   addWindowPresets v ((key, r) # qs) =
     addWindowPresets
       (if getProperty (presetObjects v) (windowPresets v) key = None
        then fireEvent (v\<lparr>windowPresets := setProperty (windowPresets v) key r\<rparr>) (WlPresetAdd key)
        else v\<lparr>windowPresets := setProperty (windowPresets v) key r\<rparr>) qs"
  by (auto simp add: persliceAt_def split: option.splits)

lemma fireEvent_presets [simp]:
  "windowPresets (fireEvent v ev) = windowPresets v"
  "presetObjects (fireEvent v ev) = presetObjects v"
  by (simp_all add: fireEvent_def)

lemma addWindowPresets_returns:
  "distinct (map fst ps) \<Longrightarrow> \<forall>k\<in>set (map fst ps). \<not> persliceAt v k \<Longrightarrow>
   \<exists>v'. addWindowPresets v ps = Inr v'"
proof (induction ps arbitrary: v)
  case Nil
  then show ?case by simp
next
  case (Cons kp rest)
  obtain key r where kp: "kp = (key, r)" by (cases kp)
  let ?reg1 = "setProperty (windowPresets v) key r"
  let ?v1 = "(if getProperty (presetObjects v) (windowPresets v) key = None
              then fireEvent (v\<lparr>windowPresets := ?reg1\<rparr>) (WlPresetAdd key)
              else v\<lparr>windowPresets := ?reg1\<rparr>)"
  have reg1: "windowPresets ?v1 = ?reg1" and st1: "presetObjects ?v1 = presetObjects v"
    by simp_all
  have notin: "key \<notin> set (map fst rest)" and dist: "distinct (map fst rest)"
    using Cons.prems(1) kp by auto
  have here: "\<not> persliceAt v key"
    using Cons.prems(2) kp by simp
  have "\<forall>k\<in>set (map fst rest). \<not> persliceAt ?v1 k"
  proof
    fix k assume k: "k \<in> set (map fst rest)"
    then have "k \<noteq> key" using notin by auto
    from persliceAt_setProperty [OF this st1 reg1] show "\<not> persliceAt ?v1 k"
      using Cons.prems(2) k by auto
  qed
  from Cons.IH [OF dist this] obtain v' where "addWindowPresets ?v1 rest = Inr v'" ..
  then show ?case
    using addWindowPresets_step [OF here, of r rest] kp
    by (simp del: addWindowPresets.simps)
qed

lemma addWindowPresets_fail:
  "distinct (map fst ps) \<Longrightarrow> \<exists>k\<in>set (map fst ps). persliceAt v k \<Longrightarrow>
   \<exists>s. addWindowPresets v ps = Inl (Error ''Cannot add perslice preset'', s)
       \<and> addWindowPresets v (takeWhile (\<lambda>kp. \<not> persliceAt v (fst kp)) ps) = Inr s"
proof (induction ps arbitrary: v)
  case Nil
  then show ?case by simp
next
  case (Cons kp rest)
  obtain key r where kp: "kp = (key, r)" by (cases kp)
  show ?case
  proof (cases "persliceAt v key")
    case True
    then show ?thesis
      using kp by (simp add: addWindowPresets_throw del: addWindowPresets.simps(2))
  next
    case False
    let ?reg1 = "setProperty (windowPresets v) key r"
    let ?v1 = "(if getProperty (presetObjects v) (windowPresets v) key = None
                then fireEvent (v\<lparr>windowPresets := ?reg1\<rparr>) (WlPresetAdd key)
                else v\<lparr>windowPresets := ?reg1\<rparr>)"
    have reg1: "windowPresets ?v1 = ?reg1" and st1: "presetObjects ?v1 = presetObjects v"
      by simp_all
    note step = addWindowPresets_step [OF False, of r]
    have notin: "key \<notin> set (map fst rest)" and dist: "distinct (map fst rest)"
      using Cons.prems(1) kp by auto
    have same: "\<And>q. q \<in> set rest \<Longrightarrow> persliceAt ?v1 (fst q) = persliceAt v (fst q)"
    proof -
      fix q assume "q \<in> set rest"
      then have "fst q \<noteq> key" using notin by auto
      from persliceAt_setProperty [OF this st1 reg1]
      show "persliceAt ?v1 (fst q) = persliceAt v (fst q)" .
    qed
    have tw: "takeWhile (\<lambda>q. \<not> persliceAt ?v1 (fst q)) rest =
              takeWhile (\<lambda>q. \<not> persliceAt v (fst q)) rest"
      by (rule takeWhile_cong) (simp_all add: same)
    have "\<exists>k\<in>set (map fst rest). persliceAt ?v1 k"
      using Cons.prems(2) False kp same by auto
    from Cons.IH [OF dist this] obtain s where
      s: "addWindowPresets ?v1 rest = Inl (Error ''Cannot add perslice preset'', s)"
         "addWindowPresets ?v1 (takeWhile (\<lambda>q. \<not> persliceAt ?v1 (fst q)) rest) = Inr s"
      by blast
    have "addWindowPresets v (kp # rest) = Inl (Error ''Cannot add perslice preset'', s)"
      using step s(1) kp by (simp del: addWindowPresets.simps)
    moreover have "addWindowPresets v
           (takeWhile (\<lambda>q. \<not> persliceAt v (fst q)) (kp # rest)) = Inr s"
      using False kp step s(2) unfolding tw by (simp del: addWindowPresets.simps)
    ultimately show ?thesis by blast
  qed
qed

lemma addWindowPresets_store [simp]:
  "presetObjects (after (addWindowPresets v ps)) = presetObjects v"
proof (induction ps arbitrary: v)
  case Nil
  then show ?case by (simp add: after_def)
next
  case (Cons kp rest)
  obtain k q where kp: "kp = (k, q)" by (cases kp)
  show ?case
  proof (cases "persliceAt v k")
    case True
    then show ?thesis
      using kp by (simp add: addWindowPresets_throw after_def del: addWindowPresets.simps(2))
  next
    case False
    let ?v1 = "(if getProperty (presetObjects v) (windowPresets v) k = None
                then fireEvent (v\<lparr>windowPresets := setProperty (windowPresets v) k q\<rparr>) (WlPresetAdd k)
                else v\<lparr>windowPresets := setProperty (windowPresets v) k q\<rparr>)"
    have "presetObjects ?v1 = presetObjects v" by simp
    with Cons.IH [of ?v1] show ?thesis
      using addWindowPresets_step [OF False, of q rest] kp
      by (simp del: addWindowPresets.simps)
  qed
qed

lemma addWindowPresets_keeps_perslice:
  "getProperty (presetObjects v) (windowPresets v) key = Some (PresetObject r) \<Longrightarrow>
   wp_perslice (presetObjects v r) = Some True \<Longrightarrow>
   getProperty (presetObjects v) (windowPresets (after (addWindowPresets v ps))) key =
     Some (PresetObject r)"
proof (induction ps arbitrary: v)
  case Nil
  then show ?case by (simp add: after_def)
next
  case (Cons kp rest)
  obtain k q where kp: "kp = (k, q)" by (cases kp)
  show ?case
  proof (cases "persliceAt v k")
    case True
    then show ?thesis
      using kp Cons.prems(1)
      by (simp add: addWindowPresets_throw after_def del: addWindowPresets.simps(2))
  next
    case False
    then have ne: "key \<noteq> k"
      using Cons.prems by (auto simp add: persliceAt_preset)
    let ?reg1 = "setProperty (windowPresets v) k q"
    let ?v1 = "(if getProperty (presetObjects v) (windowPresets v) k = None
                then fireEvent (v\<lparr>windowPresets := ?reg1\<rparr>) (WlPresetAdd k)
                else v\<lparr>windowPresets := ?reg1\<rparr>)"
    have st1: "presetObjects ?v1 = presetObjects v" by simp
    have "getProperty (presetObjects ?v1) (windowPresets ?v1) key = Some (PresetObject r)"
      using getProperty_setProperty_preset [OF ne Cons.prems(1), of q] by simp
    from Cons.IH [OF this] Cons.prems(2) show ?thesis
      using addWindowPresets_step [OF False, of q rest] kp
      unfolding st1 by (simp del: addWindowPresets.simps)
  qed
qed







lemma test_presets_at:
  "test_presets 0 = preset_minmax" "test_presets 1 = preset_ct" "test_presets 2 = preset_lung"
  "test_presets 3 = preset_minmax_perslice" "test_presets (Suc 0) = preset_ct"
  by (simp_all add: test_presets_def)

lemma test_view_ct_registry:
  "reg_own (windowPresets test_view_ct) = [(''minmax'', 0), (''ct'', 1)]"
  "reg_proto (windowPresets test_view_ct) = None"
  "presetObjects test_view_ct = test_presets"
  by (simp_all add: test_view_ct_def test_view_def)

lemma test_view_ct_lookup:
  "getProperty test_presets (windowPresets test_view_ct) ''lung'' = None"
  "getProperty test_presets (windowPresets test_view_ct) ''7'' = None"
  "getProperty test_presets (windowPresets test_view_ct) ''constructor'' = Some OtherValue"
  "getProperty test_presets (windowPresets test_view_ct) ''ct'' = Some (PresetObject 1)"
  "getProperty test_presets (windowPresets test_view_ct) ''minmax'' = Some (PresetObject 0)"
  by (simp_all add: getProperty_def test_view_ct_registry objectPrototypeNames_def)

lemma test_view_ct_perslice:
  "\<not> persliceAt test_view_ct ''lung''" "\<not> persliceAt test_view_ct ''minmax''"
  "\<not> persliceAt test_view_ct ''7''" "\<not> persliceAt test_view_ct ''constructor''"
  "persliceAt test_view_ct ''ct''"
  by (simp_all add: persliceAt_def test_view_ct_registry test_view_ct_lookup test_presets_at
      preset_minmax_def preset_ct_def)




lemma arrayIndex_lung: "arrayIndex ''lung'' = None"
  by (simp add: arrayIndex_def isDigit_def)


text \<open>
  C8, as amended. When \<open>addWindowPresets\<close> fails, the error is the per-slice overwrite
  error and the View is left as a successful \<open>addWindowPresets\<close> of the supplied
  presets that precede the first name holding a per-slice preset leaves it: these have been
  applied, the offending preset and the later ones have not. The preset objects and the
  per-slice presets of the registry are unchanged, and when the offending name is supplied
  first the View is exactly as before.
\<close>

theorem addWindowPresets_failure_state:
  assumes "distinct (map fst ps)" and "addWindowPresets v ps = Inl (e, s)"
  shows "e = Error ''Cannot add perslice preset''
         \<and> addWindowPresets v (takeWhile (\<lambda>kp. \<not> persliceAt v (fst kp)) ps) = Inr s
         \<and> presetObjects s = presetObjects v
         \<and> (\<forall>k. persliceAt v k \<longrightarrow>
               getProperty (presetObjects s) (windowPresets s) k =
                 getProperty (presetObjects v) (windowPresets v) k)
         \<and> (persliceAt v (fst (hd ps)) \<longrightarrow> s = v)"
proof -
  let ?pre = "takeWhile (\<lambda>kp. \<not> persliceAt v (fst kp)) ps"
  have off: "\<exists>k\<in>set (map fst ps). persliceAt v k"
  proof (rule ccontr)
    assume "\<not> ?thesis"
    then have "\<forall>k\<in>set (map fst ps). \<not> persliceAt v k" by blast
    from addWindowPresets_returns [OF assms(1) this] assms(2) show False by auto
  qed
  from addWindowPresets_fail [OF assms(1) off] assms(2)
  have e: "e = Error ''Cannot add perslice preset''" and pre: "addWindowPresets v ?pre = Inr s"
    by auto
  have st: "presetObjects s = presetObjects v"
    using addWindowPresets_store [of v ?pre] pre by (simp add: after_def)
  have keep: "\<forall>k. persliceAt v k \<longrightarrow>
               getProperty (presetObjects s) (windowPresets s) k =
                 getProperty (presetObjects v) (windowPresets v) k"
  proof (intro allI impI)
    fix k assume "persliceAt v k"
    then obtain r where r: "getProperty (presetObjects v) (windowPresets v) k = Some (PresetObject r)"
        "wp_perslice (presetObjects v r) = Some True"
      by (auto simp add: persliceAt_preset)
    from addWindowPresets_keeps_perslice [OF r, of ?pre] pre r(1)
    show "getProperty (presetObjects s) (windowPresets s) k =
            getProperty (presetObjects v) (windowPresets v) k"
      unfolding st by (simp add: after_def)
  qed
  have first: "persliceAt v (fst (hd ps)) \<longrightarrow> s = v"
  proof
    assume h: "persliceAt v (fst (hd ps))"
    have "ps \<noteq> []" using off by auto
    then have "?pre = []" using h by (cases ps) auto
    then show "s = v" using pre by simp
  qed
  from e pre st keep first show ?thesis by blast
qed

lemma test_view_ct_add_lung:
  "addWindowPresets test_view_ct [(''lung'', 2), (''ct'', 2)] =
     Inl (Error ''Cannot add perslice preset'',
          test_view_ct\<lparr>windowPresets :=
              \<lparr>reg_own = [(''minmax'', 0), (''ct'', 1), (''lung'', 2)], reg_proto = None\<rparr>,
            fired := [WlPresetAdd ''lung'']\<rparr>)"
  by (simp add: test_view_ct_def test_view_def getProperty_def setProperty_def
      objectPrototypeNames_def arrayIndex_lung test_presets_at preset_ct_def fireEvent_def)

text \<open>
  An instance: with the per-slice preset ct installed, adding the set (lung, ct) fails
  and leaves the View as adding lung alone does.
\<close>

theorem addWindowPresets_failure_state_witness:
  "distinct (map fst ([(''lung'', 2), (''ct'', 2)] :: presets))
   \<and> addWindowPresets test_view_ct [(''lung'', 2), (''ct'', 2)] =
       Inl (Error ''Cannot add perslice preset'',
            test_view_ct\<lparr>windowPresets :=
              \<lparr>reg_own = [(''minmax'', 0), (''ct'', 1), (''lung'', 2)], reg_proto = None\<rparr>,
              fired := [WlPresetAdd ''lung'']\<rparr>)
   \<and> addWindowPresets test_view_ct [(''lung'', 2)] =
       Inr (test_view_ct\<lparr>windowPresets :=
              \<lparr>reg_own = [(''minmax'', 0), (''ct'', 1), (''lung'', 2)], reg_proto = None\<rparr>,
              fired := [WlPresetAdd ''lung'']\<rparr>)"
proof -
  let ?ps = "[(''lung'', 2), (''ct'', 2)] :: presets"
  let ?s = "test_view_ct\<lparr>windowPresets :=
              \<lparr>reg_own = [(''minmax'', 0), (''ct'', 1), (''lung'', 2)], reg_proto = None\<rparr>,
              fired := [WlPresetAdd ''lung'']\<rparr>"
  have d: "distinct (map fst ?ps)" by simp
  note r = test_view_ct_add_lung
  have tw: "takeWhile (\<lambda>kp. \<not> persliceAt test_view_ct (fst kp)) ?ps = [(''lung'', 2)]"
    by (simp add: test_view_ct_perslice)
  from addWindowPresets_failure_state [OF d r]
  have "addWindowPresets test_view_ct [(''lung'', 2)] = Inr ?s"
    unfolding tw by blast
  with d r show ?thesis by blast
qed

text \<open>
  C8 as stated fails. With the per-slice preset ct installed, adding the set (lung, ct)
  throws at ct after lung has been added: the registry has grown and an event has been
  fired.
\<close>

theorem addWindowPresets_not_atomic:
  "addWindowPresets test_view_ct [(''lung'', 2), (''ct'', 2)] =
     Inl (Error ''Cannot add perslice preset'',
          test_view_ct\<lparr>windowPresets :=
              \<lparr>reg_own = [(''minmax'', 0), (''ct'', 1), (''lung'', 2)], reg_proto = None\<rparr>,
            fired := [WlPresetAdd ''lung'']\<rparr>)
   \<and> windowPresets test_view_ct = \<lparr>reg_own = [(''minmax'', 0), (''ct'', 1)], reg_proto = None\<rparr>
   \<and> fired test_view_ct = []"
  using test_view_ct_add_lung by (simp add: test_view_ct_def test_view_def)


subsection \<open>Per-slice presets under the operations of the View\<close>

lemma setWindowLevel_presets [simp]:
  "windowPresets (setWindowLevel v c w name silent) = windowPresets v"
  "presetObjects (setWindowLevel v c w name silent) = presetObjects v"
  by (simp_all add: setWindowLevel_def Let_def fireEvent_def)

lemma setCurrentIndex_presets [simp]:
  "windowPresets (snd (setCurrentIndex v index silent)) = windowPresets v"
  "presetObjects (snd (setCurrentIndex v index silent)) = presetObjects v"
  by (simp_all add: setCurrentIndex_def Let_def fireEvent_def)

lemma setCurrentPosition_presets [simp]:
  "windowPresets (snd (setCurrentPosition v position silent)) = windowPresets v"
  "presetObjects (snd (setCurrentPosition v position silent)) = presetObjects v"
  by (simp_all add: setCurrentPosition_def Let_def fireEvent_def)

lemma setInitialIndex_presets [simp]:
  "windowPresets (setInitialIndex v) = windowPresets v"
  "presetObjects (setInitialIndex v) = presetObjects v"
  by (simp_all add: setInitialIndex_def)

lemma setWindowLevelPreset_effect:
  "windowPresets (after (setWindowLevelPreset v name silent)) = windowPresets v
   \<and> (presetObjects (after (setWindowLevelPreset v name silent)) = presetObjects v
      \<or> (\<exists>r w. getProperty (presetObjects v) (windowPresets v) ''minmax'' = Some (PresetObject r)
             \<and> wp_wl (presetObjects v r) = None
             \<and> presetObjects (after (setWindowLevelPreset v name silent)) =
                 (presetObjects v)(r := (presetObjects v r)\<lparr>wp_wl := Some [w]\<rparr>)))"
  by (auto simp add: setWindowLevelPreset_def after_def Let_def
      split: option.splits propertyValue.splits if_splits)

lemma setWindowLevelPresetById_effect:
  "windowPresets (after (setWindowLevelPresetById v n silent)) = windowPresets v
   \<and> (presetObjects (after (setWindowLevelPresetById v n silent)) = presetObjects v
      \<or> (\<exists>r w. getProperty (presetObjects v) (windowPresets v) ''minmax'' = Some (PresetObject r)
             \<and> wp_wl (presetObjects v r) = None
             \<and> presetObjects (after (setWindowLevelPresetById v n silent)) =
                 (presetObjects v)(r := (presetObjects v r)\<lparr>wp_wl := Some [w]\<rparr>)))"
  using setWindowLevelPreset_effect
    [of v "if n < length (map fst (reg_own (windowPresets v)))
           then Some (map fst (reg_own (windowPresets v)) ! n) else None" silent]
  unfolding setWindowLevelPresetById_def Let_def by blast

lemma addWindowLut_presets [simp]:
  "windowPresets (after (addWindowLut v a)) = windowPresets v"
  "presetObjects (after (addWindowLut v a)) = presetObjects v"
  by (simp_all add: addWindowLut_def after_def Let_def)

lemma lookupWindowLut_presets [simp]:
  "windowPresets (snd (lookupWindowLut v rsi)) = windowPresets v"
  "presetObjects (snd (lookupWindowLut v rsi)) = presetObjects v"
  by (simp_all add: lookupWindowLut_def addWindowLut_def Let_def split: option.splits)

lemma resolveWindowLevel_effect:
  "(windowPresets (after_snd (resolveWindowLevel v ci)) = windowPresets v
    \<and> presetObjects (after_snd (resolveWindowLevel v ci)) = presetObjects v)
   \<or> (windowPresets (after_snd (resolveWindowLevel v ci)) =
         windowPresets (after (setWindowLevelPresetById v 0 (Some True)))
      \<and> presetObjects (after_snd (resolveWindowLevel v ci)) =
          presetObjects (after (setWindowLevelPresetById v 0 (Some True))))"
proof -
  have byId: "after_snd
      (case setWindowLevelPresetById v 0 (Some True) of
         Inl e \<Rightarrow> Inl e
       | Inr v1 \<Rightarrow> Inr (currentWl v1, v1)) =
      after (setWindowLevelPresetById v 0 (Some True))"
    by (auto simp add: after_def after_snd_def split: sum.splits)
  have here: "\<And>x. after_snd (Inr (x, v)) = v" "\<And>e. after_snd (Inl (e, v)) = v"
    by (simp_all add: after_snd_def)
  show ?thesis
    unfolding resolveWindowLevel_def Let_def
    by (simp add: here byId split: option.splits propertyValue.splits)
qed

lemma getCurrentWindowLut_effect:
  "(windowPresets (after_snd (getCurrentWindowLut v rsi)) = windowPresets v
    \<and> presetObjects (after_snd (getCurrentWindowLut v rsi)) = presetObjects v)
   \<or> (\<exists>v1. windowPresets v1 = windowPresets v \<and> presetObjects v1 = presetObjects v
          \<and> windowPresets (after_snd (getCurrentWindowLut v rsi)) =
              windowPresets (after (setWindowLevelPresetById v1 0 (Some True)))
          \<and> presetObjects (after_snd (getCurrentWindowLut v rsi)) =
              presetObjects (after (setWindowLevelPresetById v1 0 (Some True))))"
proof -
  let ?v1 = "if getCurrentIndex v = None then setInitialIndex v else v"
  have v1: "windowPresets ?v1 = windowPresets v" "presetObjects ?v1 = presetObjects v"
    by simp_all
  let ?r = "resolveWindowLevel ?v1 (getCurrentIndex ?v1)"
  let ?rsi = "(case rsi of None \<Rightarrow> rsiAtIndex (v_image ?v1) (getCurrentIndex ?v1) | Some r \<Rightarrow> r)"
  have same: "windowPresets (after_snd (getCurrentWindowLut v rsi)) = windowPresets (after_snd ?r)
              \<and> presetObjects (after_snd (getCurrentWindowLut v rsi)) = presetObjects (after_snd ?r)"
  proof (cases ?r)
    case (Inl ev)
    then show ?thesis
      by (simp add: getCurrentWindowLut_def Let_def after_snd_def split: prod.splits)
  next
    case (Inr wv)
    obtain wl v2 where wv: "wv = (wl, v2)" by (cases wv)
    obtain a v3 where l: "lookupWindowLut v2 ?rsi = (a, v3)"
      by (cases "lookupWindowLut v2 ?rsi")
    have v3: "windowPresets v3 = windowPresets v2" "presetObjects v3 = presetObjects v2"
      using lookupWindowLut_presets [of v2 ?rsi] l by simp_all
    show ?thesis
      using Inr wv l v3
      by (simp add: getCurrentWindowLut_def Let_def after_snd_def fireEvent_def
          split: option.splits)
  qed
  from resolveWindowLevel_effect [of ?v1 "getCurrentIndex ?v1"] show ?thesis
    using same v1 by metis
qed

lemma stepIndex_presets [simp]:
  "windowPresets (after_snd (stepIndex v d step silent)) = windowPresets v"
  "presetObjects (after_snd (stepIndex v d step silent)) = presetObjects v"
  by (simp_all add: stepIndex_def after_snd_def Let_def split: option.splits prod.splits)
     (metis setCurrentIndex_presets snd_conv)+

lemma filled_keeps_entry:
  assumes "getProperty S R key = Some (PresetObject r)"
    and "R' = R"
    and "S' = S
         \<or> (\<exists>r0 w. getProperty S R ''minmax'' = Some (PresetObject r0) \<and> wp_wl (S r0) = None
                \<and> S' = S(r0 := (S r0)\<lparr>wp_wl := Some [w]\<rparr>))"
  shows "getProperty S' R' key = Some (PresetObject r)
         \<and> (S' r = S r
            \<or> (wp_wl (S r) = None \<and> getProperty S' R' ''minmax'' = Some (PresetObject r)
               \<and> (\<exists>w. S' r = (S r)\<lparr>wp_wl := Some [w]\<rparr>)))"
proof -
  have g: "getProperty S' R' key = Some (PresetObject r)"
    using assms(1,2) by (auto intro: getProperty_preset_store)
  from assms(3) show ?thesis
  proof
    assume "S' = S"
    then show ?thesis using g by simp
  next
    assume "\<exists>r0 w. getProperty S R ''minmax'' = Some (PresetObject r0) \<and> wp_wl (S r0) = None
                \<and> S' = S(r0 := (S r0)\<lparr>wp_wl := Some [w]\<rparr>)"
    then obtain r0 w where m: "getProperty S R ''minmax'' = Some (PresetObject r0)"
      and n: "wp_wl (S r0) = None" and s: "S' = S(r0 := (S r0)\<lparr>wp_wl := Some [w]\<rparr>)"
      by blast
    have m': "getProperty S' R' ''minmax'' = Some (PresetObject r0)"
      using m assms(2) by (auto intro: getProperty_preset_store)
    show ?thesis
    proof (cases "r0 = r")
      case True
      then show ?thesis using g m' n s by auto
    next
      case False
      then show ?thesis using g s by simp
    qed
  qed
qed

lemma applyOp_keeps_entry:
  assumes "getProperty (presetObjects v) (windowPresets v) key = Some (PresetObject r)"
    and "wp_perslice (presetObjects v r) = Some True" and "\<not> replacesRegistry op"
  shows "getProperty (presetObjects (applyOp v op)) (windowPresets (applyOp v op)) key =
           Some (PresetObject r)
         \<and> (presetObjects (applyOp v op) r = presetObjects v r
            \<or> (wp_wl (presetObjects v r) = None
               \<and> getProperty (presetObjects (applyOp v op)) (windowPresets (applyOp v op))
                    ''minmax'' = Some (PresetObject r)
               \<and> (\<exists>w. presetObjects (applyOp v op) r =
                        (presetObjects v r)\<lparr>wp_wl := Some [w]\<rparr>)))"
proof (cases op)
  case (OpGetCurrentWindowLut rsi)
  from getCurrentWindowLut_effect [of v rsi]
  have "windowPresets (applyOp v op) = windowPresets v
        \<and> (presetObjects (applyOp v op) = presetObjects v
           \<or> (\<exists>r0 w. getProperty (presetObjects v) (windowPresets v) ''minmax'' =
                        Some (PresetObject r0)
                  \<and> wp_wl (presetObjects v r0) = None
                  \<and> presetObjects (applyOp v op) =
                      (presetObjects v)(r0 := (presetObjects v r0)\<lparr>wp_wl := Some [w]\<rparr>)))"
  proof
    assume "windowPresets (after_snd (getCurrentWindowLut v rsi)) = windowPresets v
            \<and> presetObjects (after_snd (getCurrentWindowLut v rsi)) = presetObjects v"
    then show ?thesis using OpGetCurrentWindowLut by simp
  next
    assume "\<exists>v1. windowPresets v1 = windowPresets v \<and> presetObjects v1 = presetObjects v
          \<and> windowPresets (after_snd (getCurrentWindowLut v rsi)) =
              windowPresets (after (setWindowLevelPresetById v1 0 (Some True)))
          \<and> presetObjects (after_snd (getCurrentWindowLut v rsi)) =
              presetObjects (after (setWindowLevelPresetById v1 0 (Some True)))"
    then obtain v1 where v1: "windowPresets v1 = windowPresets v" "presetObjects v1 = presetObjects v"
      "windowPresets (after_snd (getCurrentWindowLut v rsi)) =
         windowPresets (after (setWindowLevelPresetById v1 0 (Some True)))"
      "presetObjects (after_snd (getCurrentWindowLut v rsi)) =
         presetObjects (after (setWindowLevelPresetById v1 0 (Some True)))"
      by blast
    from setWindowLevelPresetById_effect [of v1 0 "Some True"] show ?thesis
      using OpGetCurrentWindowLut v1 by simp
  qed
  then show ?thesis
    using filled_keeps_entry [OF assms(1)] by blast
next
  case (OpAddWindowPresets ps)
  then show ?thesis
    using addWindowPresets_keeps_perslice [OF assms(1,2)] by simp
next
  case (OpSetWindowLevelPreset name silent)
  from setWindowLevelPreset_effect [of v name silent]
  have "windowPresets (applyOp v op) = windowPresets v
        \<and> (presetObjects (applyOp v op) = presetObjects v
           \<or> (\<exists>r0 w. getProperty (presetObjects v) (windowPresets v) ''minmax'' =
                        Some (PresetObject r0)
                  \<and> wp_wl (presetObjects v r0) = None
                  \<and> presetObjects (applyOp v op) =
                      (presetObjects v)(r0 := (presetObjects v r0)\<lparr>wp_wl := Some [w]\<rparr>)))"
    using OpSetWindowLevelPreset by simp
  then show ?thesis
    using filled_keeps_entry [OF assms(1)] by blast
next
  case (OpSetWindowLevelPresetById n silent)
  from setWindowLevelPresetById_effect [of v n silent]
  have "windowPresets (applyOp v op) = windowPresets v
        \<and> (presetObjects (applyOp v op) = presetObjects v
           \<or> (\<exists>r0 w. getProperty (presetObjects v) (windowPresets v) ''minmax'' =
                        Some (PresetObject r0)
                  \<and> wp_wl (presetObjects v r0) = None
                  \<and> presetObjects (applyOp v op) =
                      (presetObjects v)(r0 := (presetObjects v r0)\<lparr>wp_wl := Some [w]\<rparr>)))"
    using OpSetWindowLevelPresetById by simp
  then show ?thesis
    using filled_keeps_entry [OF assms(1)] by blast
next
  case (OpSetWindowPresets ps)
  then show ?thesis using assms(3) by simp
qed (use assms(1) in \<open>simp_all add: setWindowLevelMinMax_def Let_def incrementIndex_def decrementIndex_def\<close>)

text \<open>
  C7, as amended. A per-slice preset, once in the registry under a name, is still the
  preset under that name after any sequence of \<open>setImage\<close>, \<open>setOrientation\<close>, \<open>setInitialIndex\<close>,
  \<open>getCurrentWindowLut\<close>, \<open>addWindowLut\<close>, \<open>addWindowPresets\<close>,
  \<open>setCurrentPosition\<close>, \<open>setCurrentIndex\<close>, \<open>setWindowLevel\<close>,
  \<open>setWindowLevelPreset\<close>, \<open>setWindowLevelPresetById\<close>, \<open>setWindowLevelMinMax\<close>,
  \<open>incrementIndex\<close> and \<open>decrementIndex\<close>, whether they return or throw, and the
  preset object is unchanged, but for one case: a per-slice preset object without values
  may have had one window level filled in as its values, and it is then the preset under
  the name minmax.
  \<open>setWindowPresets\<close> is the exception: it makes the supplied object the registry.
\<close>

theorem perslice_preset_kept:
  assumes "getProperty (presetObjects v) (windowPresets v) key = Some (PresetObject r)"
    and "wp_perslice (presetObjects v r) = Some True"
    and "list_all (\<lambda>op. \<not> replacesRegistry op) ops"
  shows "getProperty (presetObjects (applyOps v ops)) (windowPresets (applyOps v ops)) key =
           Some (PresetObject r)
         \<and> (presetObjects (applyOps v ops) r = presetObjects v r
            \<or> (wp_wl (presetObjects v r) = None
               \<and> getProperty (presetObjects (applyOps v ops)) (windowPresets (applyOps v ops))
                    ''minmax'' = Some (PresetObject r)
               \<and> (\<exists>w. presetObjects (applyOps v ops) r =
                        (presetObjects v r)\<lparr>wp_wl := Some [w]\<rparr>)))
         \<and> windowPresets (applyOp v (OpSetWindowPresets reg)) = reg"
proof -
  define p where "p = presetObjects v r"
  have ps: "wp_perslice p = Some True" using assms(2) p_def by simp
  have "getProperty (presetObjects (fold (\<lambda>op s. applyOp s op) ops u))
          (windowPresets (fold (\<lambda>op s. applyOp s op) ops u)) key = Some (PresetObject r)
        \<and> (presetObjects (fold (\<lambda>op s. applyOp s op) ops u) r = p
           \<or> (wp_wl p = None
              \<and> getProperty (presetObjects (fold (\<lambda>op s. applyOp s op) ops u))
                   (windowPresets (fold (\<lambda>op s. applyOp s op) ops u)) ''minmax'' =
                  Some (PresetObject r)
              \<and> (\<exists>w. presetObjects (fold (\<lambda>op s. applyOp s op) ops u) r = p\<lparr>wp_wl := Some [w]\<rparr>)))"
    if "getProperty (presetObjects u) (windowPresets u) key = Some (PresetObject r)"
      and "presetObjects u r = p
           \<or> (wp_wl p = None
              \<and> getProperty (presetObjects u) (windowPresets u) ''minmax'' = Some (PresetObject r)
              \<and> (\<exists>w. presetObjects u r = p\<lparr>wp_wl := Some [w]\<rparr>))"
    for u
    using that assms(3)
  proof (induction ops arbitrary: u)
    case Nil
    then show ?case by simp
  next
    case (Cons op ops)
    have nr: "\<not> replacesRegistry op" and rest: "list_all (\<lambda>op. \<not> replacesRegistry op) ops"
      using Cons.prems(3) by simp_all
    let ?u' = "applyOp u op"
    have pu: "wp_perslice (presetObjects u r) = Some True"
      using Cons.prems(2) ps by auto
    note step = applyOp_keeps_entry [OF Cons.prems(1) pu nr]
    have g: "getProperty (presetObjects ?u') (windowPresets ?u') key = Some (PresetObject r)"
      using step by blast
    have i: "presetObjects ?u' r = p
           \<or> (wp_wl p = None
              \<and> getProperty (presetObjects ?u') (windowPresets ?u') ''minmax'' = Some (PresetObject r)
              \<and> (\<exists>w. presetObjects ?u' r = p\<lparr>wp_wl := Some [w]\<rparr>))"
      using Cons.prems(2)
    proof
      assume "presetObjects u r = p"
      then show ?thesis using step by auto
    next
      assume f: "wp_wl p = None
              \<and> getProperty (presetObjects u) (windowPresets u) ''minmax'' = Some (PresetObject r)
              \<and> (\<exists>w. presetObjects u r = p\<lparr>wp_wl := Some [w]\<rparr>)"
      then obtain w where w: "presetObjects u r = p\<lparr>wp_wl := Some [w]\<rparr>" by blast
      then have "wp_wl (presetObjects u r) \<noteq> None" by simp
      then have same: "presetObjects ?u' r = presetObjects u r"
        using step by auto
      from f have m: "getProperty (presetObjects u) (windowPresets u) ''minmax'' = Some (PresetObject r)"
        by blast
      from applyOp_keeps_entry [OF m pu nr]
      have "getProperty (presetObjects ?u') (windowPresets ?u') ''minmax'' = Some (PresetObject r)"
        by blast
      then show ?thesis using f same w by auto
    qed
    from Cons.IH [OF g i rest] show ?case by simp
  qed
  from this [of v] assms(1) p_def show ?thesis
    by (simp add: applyOps_def setWindowPresets_def)
qed

text \<open>
  An instance: the per-slice preset ct of the View is unchanged after a failing
  \<open>addWindowPresets\<close>, a change of slice, and three uses of presets.
\<close>

theorem perslice_preset_kept_witness:
  "getProperty (presetObjects test_view_ct) (windowPresets test_view_ct) ''ct'' =
     Some (PresetObject 1)
   \<and> wp_perslice (presetObjects test_view_ct 1) = Some True
   \<and> list_all (\<lambda>op. \<not> replacesRegistry op)
       [OpAddWindowPresets [(''lung'', 2), (''ct'', 2)],
        OpSetCurrentIndex [0, 0, 1] None,
        OpSetWindowLevelPreset (Some ''ct'') None,
        OpGetCurrentWindowLut None,
        OpSetWindowLevelPresetById 0 None]
   \<and> getProperty
        (presetObjects (applyOps test_view_ct
          [OpAddWindowPresets [(''lung'', 2), (''ct'', 2)],
           OpSetCurrentIndex [0, 0, 1] None,
           OpSetWindowLevelPreset (Some ''ct'') None,
           OpGetCurrentWindowLut None,
           OpSetWindowLevelPresetById 0 None]))
        (windowPresets (applyOps test_view_ct
          [OpAddWindowPresets [(''lung'', 2), (''ct'', 2)],
           OpSetCurrentIndex [0, 0, 1] None,
           OpSetWindowLevelPreset (Some ''ct'') None,
           OpGetCurrentWindowLut None,
           OpSetWindowLevelPresetById 0 None])) ''ct'' = Some (PresetObject 1)
   \<and> presetObjects (applyOps test_view_ct
          [OpAddWindowPresets [(''lung'', 2), (''ct'', 2)],
           OpSetCurrentIndex [0, 0, 1] None,
           OpSetWindowLevelPreset (Some ''ct'') None,
           OpGetCurrentWindowLut None,
           OpSetWindowLevelPresetById 0 None]) 1 = preset_ct"
proof -
  let ?ops = "[OpAddWindowPresets [(''lung'', 2), (''ct'', 2)],
        OpSetCurrentIndex [0, 0, 1] None,
        OpSetWindowLevelPreset (Some ''ct'') None,
        OpGetCurrentWindowLut None,
        OpSetWindowLevelPresetById 0 None]"
  have a: "getProperty (presetObjects test_view_ct) (windowPresets test_view_ct) ''ct'' =
             Some (PresetObject 1)"
    by (simp add: test_view_ct_registry test_view_ct_lookup)
  have b: "wp_perslice (presetObjects test_view_ct 1) = Some True"
    by (simp add: test_view_ct_registry test_presets_at preset_ct_def)
  have c: "wp_wl (presetObjects test_view_ct 1) \<noteq> None"
    and c': "presetObjects test_view_ct 1 = preset_ct"
    by (simp_all add: test_view_ct_registry test_presets_at preset_ct_def)
  have d: "list_all (\<lambda>op. \<not> replacesRegistry op) ?ops"
    by simp
  from perslice_preset_kept [OF a b d] c c'
  have "getProperty (presetObjects (applyOps test_view_ct ?ops))
          (windowPresets (applyOps test_view_ct ?ops)) ''ct'' = Some (PresetObject 1)
        \<and> presetObjects (applyOps test_view_ct ?ops) 1 = preset_ct"
    by auto
  with a b d show ?thesis by blast
qed

lemma test_view_pm_fill:
  "presetObjects (applyOp test_view_pm (OpSetWindowLevelPreset (Some ''minmax'') None)) 3 =
     \<lparr>wp_name = ''minmax'', wp_wl = Some [\<lparr>wl_center = 201 / 2, wl_width = 1\<rparr>],
      wp_perslice = Some True\<rparr>"
  by (simp add: setWindowLevelPreset_def after_def Let_def test_view_pm_def
      preset_minmax_perslice_def getProperty_def getWindowLevelMinMax_def test_view_def
      test_image_def getCurrentIndex_def test_presets_at)

text \<open>
  C7 as stated fails twice. \<open>setWindowPresets\<close> is a public operation and it removes or
  replaces an installed per-slice preset. And a per-slice preset without values that
  \<open>addWindowPresets\<close> has installed under the name minmax is changed by
  \<open>setWindowLevelPreset\<close>, which fills in the min/max window level of the image.
\<close>

theorem perslice_preset_replaced_or_filled:
  "getProperty (presetObjects test_view_ct) (windowPresets test_view_ct) ''ct'' =
     Some (PresetObject 1)
   \<and> wp_perslice (presetObjects test_view_ct 1) = Some True
   \<and> getProperty test_presets (windowPresets (applyOp test_view_ct
        (OpSetWindowPresets \<lparr>reg_own = [], reg_proto = None\<rparr>))) ''ct'' = None
   \<and> getProperty test_presets (windowPresets (applyOp test_view_ct
        (OpSetWindowPresets \<lparr>reg_own = [(''ct'', 2)], reg_proto = None\<rparr>))) ''ct'' =
       Some (PresetObject 2)
   \<and> addWindowPresets test_view [(''minmax'', 3)] = Inr test_view_pm
   \<and> getProperty (presetObjects test_view_pm) (windowPresets test_view_pm) ''minmax'' =
       Some (PresetObject 3)
   \<and> presetObjects test_view_pm 3 =
       \<lparr>wp_name = ''minmax'', wp_wl = None, wp_perslice = Some True\<rparr>
   \<and> presetObjects (applyOp test_view_pm (OpSetWindowLevelPreset (Some ''minmax'') None)) 3 =
       \<lparr>wp_name = ''minmax'', wp_wl = Some [\<lparr>wl_center = 201 / 2, wl_width = 1\<rparr>],
        wp_perslice = Some True\<rparr>"
proof -
  have 0: "getProperty (presetObjects test_view_ct) (windowPresets test_view_ct) ''ct'' =
     Some (PresetObject 1)"
    "wp_perslice (presetObjects test_view_ct 1) = Some True"
    by (simp_all add: test_view_ct_registry test_view_ct_lookup test_presets_at preset_ct_def)
  have 1: "getProperty test_presets (windowPresets (applyOp test_view_ct
        (OpSetWindowPresets \<lparr>reg_own = [], reg_proto = None\<rparr>))) ''ct'' = None"
    and 2: "getProperty test_presets (windowPresets (applyOp test_view_ct
        (OpSetWindowPresets \<lparr>reg_own = [(''ct'', 2)], reg_proto = None\<rparr>))) ''ct'' =
       Some (PresetObject 2)"
    by (simp_all add: setWindowPresets_def getProperty_def objectPrototypeNames_def)
  have 3: "addWindowPresets test_view [(''minmax'', 3)] = Inr test_view_pm"
    by (simp add: test_view_pm_def test_view_def getProperty_def setProperty_def
        test_presets_at preset_minmax_def)
  have 4: "getProperty (presetObjects test_view_pm) (windowPresets test_view_pm) ''minmax'' =
       Some (PresetObject 3)"
    "presetObjects test_view_pm 3 = \<lparr>wp_name = ''minmax'', wp_wl = None, wp_perslice = Some True\<rparr>"
    by (simp_all add: test_view_pm_def test_view_def getProperty_def test_presets_at
        preset_minmax_perslice_def)
  from 0 1 2 3 4 test_view_pm_fill show ?thesis by blast
qed


subsection \<open>The cache of window lookup tables\<close>

lemma lookupWindowLut_miss:
  assumes "windowLuts v rsi = None"
  shows "lookupWindowLut v rsi =
           (length (lutStore v),
            v\<lparr>lutStore := lutStore v @
                  [\<lparr>wlut_rescaleLut = \<lparr>rl_rsi = rsiAtSlice (v_image v) 0,
                                       rl_bitsStored = bitsStored (v_image v)\<rparr>,
                    wlut_isSigned = isSigned (v_image v),
                    wlut_windowLevel = None, wlut_isReady = False\<rparr>],
              windowLuts := (windowLuts v)(rsiAtSlice (v_image v) 0 \<mapsto> length (lutStore v))\<rparr>)"
  using assms by (simp add: lookupWindowLut_def addWindowLut_def Let_def)

lemma lookupWindowLut_hit:
  assumes "windowLuts v rsi = Some a"
  shows "lookupWindowLut v rsi = (a, v)"
  using assms by (simp add: lookupWindowLut_def)

lemma getCurrentWindowLut_first_call: "getCurrentWindowLut test_view (Some test_rsi) = Inr (0, test_view1)"
proof -
  let ?v0 = "test_view\<lparr>currentPosition := Some [0, 0, 0]\<rparr>"
  have gi: "getCurrentIndex test_view = None"
    by (simp add: getCurrentIndex_def test_view_def)
  have rep: "replicate 3 (0::int) = [0, 0, 0]"
    by (simp add: numeral_3_eq_3)
  have si: "setInitialIndex test_view = ?v0"
    by (simp add: rep setInitialIndex_def setCurrentIndex_def Let_def dirs_def getScrollIndex_def
        test_view_def test_image_def test_geometry_def)
  have ci: "getCurrentIndex ?v0 = Some [0, 0, 0]"
    by (simp add: getCurrentIndex_def test_view_def test_image_def test_geometry_def)
  let ?v2 = "?v0\<lparr>presetObjects := test_presets(0 := preset_minmax\<lparr>wp_wl := Some [test_wl]\<rparr>),
      currentPresetName := Some ''minmax'',
      currentWl := Some test_wl, fired := [WlChange (201 / 2) 1 True]\<rparr>"
  have mm: "getWindowLevelMinMax ?v0 = test_wl"
    by (simp add: getWindowLevelMinMax_def Let_def test_view_def test_image_def test_wl_def)
  have byid: "setWindowLevelPresetById ?v0 0 (Some True) = Inr ?v2"
    by (simp add: setWindowLevelPresetById_def setWindowLevelPreset_def Let_def getProperty_def
        getWindowLevelMinMax_def getCurrentIndex_def test_view_def test_image_def
        setWindowLevel_def test_wl_def fireEvent_def WindowLevel_equals_def
        test_presets_def preset_minmax_def)
  have cpn: "currentPresetName test_view = None" and cwl: "currentWl test_view = None"
    and ls: "lutStore test_view = []"
    by (simp_all add: test_view_def)
  have rw: "resolveWindowLevel ?v0 (Some [0, 0, 0]) = Inr (Some test_wl, ?v2)"
    unfolding resolveWindowLevel_def Let_def
    by (simp add: byid cpn cwl)
  have miss: "windowLuts ?v2 test_rsi = None"
    by (simp add: test_view_def)
  have lk: "lookupWindowLut ?v2 test_rsi =
     (0, ?v2\<lparr>lutStore := [test_lut\<lparr>wlut_windowLevel := None, wlut_isReady := False\<rparr>],
             windowLuts := (\<lambda>_. None)(\<lparr>rsi_slope = 1, rsi_intercept = 0\<rparr> \<mapsto> 0)\<rparr>)"
    unfolding lookupWindowLut_miss [OF miss]
    by (simp add: test_view_def test_image_def test_lut_def)
  show ?thesis
    by (simp add: getCurrentWindowLut_def Let_def gi si ci rw lk WindowLevel_equals_def
        fireEvent_def test_lut_def test_view1_def)
      (simp add: test_view_def test_wl_def)
qed


lemma getCurrentWindowLut_second_call: "getCurrentWindowLut test_view1 (Some test_rsi) = Inr (1, test_view2)"
proof -
  have gi: "getCurrentIndex test_view1 = Some [0, 0, 0]"
    by (simp add: getCurrentIndex_def test_view1_def test_view_def test_image_def test_geometry_def)
  have cpn: "currentPresetName test_view1 = Some ''minmax''"
    and cwl: "currentWl test_view1 = Some test_wl"
    and wp: "getProperty (presetObjects test_view1) (windowPresets test_view1) ''minmax'' =
              Some (PresetObject 0)"
       "wp_perslice (presetObjects test_view1 0) = None"
    by (simp_all add: test_view1_def test_view_def getProperty_def preset_minmax_def)
  have rw: "resolveWindowLevel test_view1 (Some [0, 0, 0]) = Inr (Some test_wl, test_view1)"
    by (simp add: resolveWindowLevel_def Let_def cpn cwl wp)
  have miss: "windowLuts test_view1 test_rsi = None"
    by (simp add: test_view1_def test_rsi_def)
  have lk: "lookupWindowLut test_view1 test_rsi =
     (1, test_view1\<lparr>lutStore := [test_lut, test_lut\<lparr>wlut_windowLevel := None, wlut_isReady := False\<rparr>],
             windowLuts := (\<lambda>_. None)(\<lparr>rsi_slope = 1, rsi_intercept = 0\<rparr> \<mapsto> 1)\<rparr>)"
    unfolding lookupWindowLut_miss [OF miss]
    by (simp add: test_view1_def test_view_def test_image_def test_lut_def)
  show ?thesis
    by (simp add: getCurrentWindowLut_def Let_def gi rw lk WindowLevel_equals_def
        fireEvent_def test_view2_def)
      (simp add: test_view1_def test_view_def test_wl_def test_lut_def)
qed


lemma lookupWindowLut_key:
  assumes "windowLuts v rsi = None"
  shows "windowLuts (snd (lookupWindowLut v rsi)) rsi =
           (if rsi = rsiAtSlice (v_image v) 0 then Some (length (lutStore v)) else None)"
  using assms by (simp add: lookupWindowLut_miss)

text \<open>
  C2. On a cache miss for the RSI of the call, \<^verbatim>\<open>getCurrentWindowLut\<close> builds the new
  WindowLut on a RescaleLut of the RSI at slice 0, as the claim says, but it stores it with
  \<^verbatim>\<open>addWindowLut\<close>, which files a LUT under the RSI of its own RescaleLut: the key is
  the RSI at slice 0, not the RSI of the call. Here the image has RSI (1, 0) at slice 0 and
  the call asks for RSI (2, 5): after the call the cache has the new LUT under (1, 0) and
  nothing under (2, 5), and a second call with the same RSI misses again, builds a second
  LUT and files it over the first.
\<close>

theorem getCurrentWindowLut_stores_under_slice0_key:
  "getCurrentWindowLut test_view (Some test_rsi) = Inr (0, test_view1)
   \<and> rl_rsi (wlut_rescaleLut (lutStore test_view1 ! 0)) = rsiAtSlice test_image 0
   \<and> windowLuts test_view1 (rsiAtSlice test_image 0) = Some 0
   \<and> windowLuts test_view1 test_rsi = None
   \<and> getCurrentWindowLut test_view1 (Some test_rsi) = Inr (1, test_view2)
   \<and> length (lutStore test_view2) = 2
   \<and> windowLuts test_view2 (rsiAtSlice test_image 0) = Some 1
   \<and> windowLuts test_view2 test_rsi = None"
  using getCurrentWindowLut_first_call getCurrentWindowLut_second_call
  by (simp add: test_view2_def test_view1_def test_lut_def test_image_def test_rsi_def)

theorem getCurrentWindowLut_stores_under_slice0_key_witness:
  "after_snd (getCurrentWindowLut test_view (Some test_rsi)) = test_view1
   \<and> windowLuts (after_snd (getCurrentWindowLut test_view (Some test_rsi))) test_rsi = None
   \<and> after_snd (getCurrentWindowLut test_view1 (Some test_rsi)) = test_view2"
  using getCurrentWindowLut_stores_under_slice0_key
  by (simp add: after_snd_def)

section \<open>Theorems about the Stage\<close>

subsection \<open>The callback store\<close>

lemma find_append_fst:
  "find P (xs @ ys) = (case find P xs of None \<Rightarrow> find P ys | Some x \<Rightarrow> Some x)"
  by (induction xs) auto

lemma getBinderCallback_found:
  assumes "storedCallback st b i = Some c"
  shows "getBinderCallback st b i = Inr (c, st)"
proof -
  from assms obtain store entries obj where
    s: "callbackStore st = Some store" and e: "store i = Some entries"
    and f: "find (\<lambda>elem. fst elem = b) entries = Some obj" and c: "snd obj = c"
    by (auto simp add: storedCallback_def split: option.splits)
  have "st\<lparr>callbackStore := Some store\<rparr> = st"
    using s by simp
  then show ?thesis
    using s e f c by (simp add: getBinderCallback_def Let_def)
qed

lemma getBinderCallback_new:
  assumes "callbackStore st \<noteq> None" and "storedCallback st b i = None"
  shows "\<exists>st'. getBinderCallback st b i = Inr (Callback (nextRef st) b i, st')
           \<and> layerGroups st' = layerGroups st \<and> binders st' = binders st
           \<and> callbackStore st' \<noteq> None \<and> nextRef st' = Suc (nextRef st)
           \<and> (\<forall>b' i'. storedCallback st' b' i' =
                 (if b' = b \<and> i' = i then Some (Callback (nextRef st) b i)
                  else storedCallback st b' i'))"
proof -
  from assms(1) obtain store where s: "callbackStore st = Some store" by auto
  let ?entries = "case store i of None \<Rightarrow> [] | Some l \<Rightarrow> l"
  let ?cb = "Callback (nextRef st) b i"
  let ?st' = "st\<lparr>callbackStore := Some (store(i \<mapsto> ?entries @ [(b, ?cb)])),
                 nextRef := Suc (nextRef st)\<rparr>"
  have nf: "find (\<lambda>elem. fst elem = b) ?entries = None"
    using assms(2) s by (auto simp add: storedCallback_def split: option.splits)
  have g: "getBinderCallback st b i = Inr (?cb, ?st')"
    using s nf by (auto simp add: getBinderCallback_def Let_def split: option.splits)
  have sc: "storedCallback ?st' b' i' =
                 (if b' = b \<and> i' = i then Some ?cb else storedCallback st b' i')" for b' i'
    using s nf
    by (auto simp add: storedCallback_def find_append_fst split: option.splits)
  show ?thesis
    using g sc by (intro exI [of _ ?st']) simp
qed

subsection \<open>Listeners of one layer group\<close>

lemma setListeners_simps [simp]:
  "callbackStore (setListeners st g type cbs) = callbackStore st"
  "binders (setListeners st g type cbs) = binders st"
  "nextRef (setListeners st g type cbs) = nextRef st"
  "length (layerGroups (setListeners st g type cbs)) = length (layerGroups st)"
  "storedCallback (setListeners st g type cbs) = storedCallback st"
  by (simp_all add: setListeners_def storedCallback_def fun_eq_iff)

lemma setListeners_twice [simp]:
  "setListeners (setListeners st g type cbs) g type cbs' = setListeners st g type cbs'"
  by (cases "g < length (layerGroups st)") (simp_all add: setListeners_def list_update_beyond)

lemma setListeners_same:
  "lg_listeners (layerGroups st ! g) type = cbs \<Longrightarrow> setListeners st g type cbs = st"
  by (auto simp add: setListeners_def)

lemma setListeners_get [simp]:
  "g < length (layerGroups st) \<Longrightarrow>
   lg_listeners (layerGroups (setListeners st g type cbs) ! g) type = cbs"
  by (simp add: setListeners_def)

lemma add_step:
  assumes "g < length (layerGroups st)"
  shows "(setListeners st g type cbs)\<lparr>layerGroups := (layerGroups (setListeners st g type cbs))
              [g := lg_addEventListener (layerGroups (setListeners st g type cbs) ! g) type c]\<rparr>
         = setListeners st g type (cbs @ [c])"
  using assms by (simp add: setListeners_def lg_addEventListener_def)

lemma remove_step:
  assumes "g < length (layerGroups st)"
  shows "(setListeners st g type cbs)\<lparr>layerGroups := (layerGroups (setListeners st g type cbs))
              [g := lg_removeEventListener (layerGroups (setListeners st g type cbs) ! g) type c]\<rparr>
         = setListeners st g type (filter (\<lambda>x. cb_ref x \<noteq> cb_ref c) cbs)"
  using assms by (simp add: setListeners_def lg_removeEventListener_def)


lemma remove_loop:
  assumes "p < length (layerGroups st)"
    and "\<forall>i\<in>set js. i \<noteq> p \<longrightarrow> storedCallback st b i \<noteq> None"
  shows "forEach
       (\<lambda>i s.
          if i \<noteq> p then
            if p < length (layerGroups s) then
              (case getBinderCallback s b i of
                 Inl e \<Rightarrow> Inl e
               | Inr (cb, s1) \<Rightarrow>
                   Inr (s1\<lparr>layerGroups := (layerGroups s1)
                            [p := lg_removeEventListener (layerGroups s1 ! p) type cb]\<rparr>))
            else Inl TypeError
          else Inr s)
       js (setListeners st p type cbs)
     = Inr (setListeners st p type
         (filter (\<lambda>x. cb_ref x \<notin> set (map (\<lambda>i. cb_ref (the (storedCallback st b i)))
                                          (filter (\<lambda>i. i \<noteq> p) js))) cbs))"
  using assms(2)
proof (induction js arbitrary: cbs)
  case Nil
  then show ?case by simp
next
  case (Cons i rest)
  show ?case
  proof (cases "i = p")
    case True
    then show ?thesis using Cons by simp
  next
    case False
    then obtain c where c: "storedCallback st b i = Some c"
      using Cons.prems by auto
    have g: "getBinderCallback (setListeners st p type cbs) b i =
               Inr (c, setListeners st p type cbs)"
      by (rule getBinderCallback_found) (simp add: c)
    have rest: "\<forall>i\<in>set rest. i \<noteq> p \<longrightarrow> storedCallback st b i \<noteq> None"
      using Cons.prems by simp
    show ?thesis
      using False assms(1) c
      by (simp add: g remove_step Cons.IH [OF rest] conj_commute)
  qed
qed

lemma add_loop:
  assumes "p < length (layerGroups st)"
    and "\<forall>i\<in>set js. i \<noteq> p \<longrightarrow> storedCallback st b i \<noteq> None"
  shows "forEach
       (\<lambda>i s.
          if i \<noteq> p then
            if p < length (layerGroups s) then
              (case getBinderCallback s b i of
                 Inl e \<Rightarrow> Inl e
               | Inr (cb, s1) \<Rightarrow>
                   Inr (s1\<lparr>layerGroups := (layerGroups s1)
                            [p := lg_addEventListener (layerGroups s1 ! p) type cb]\<rparr>))
            else Inl TypeError
          else Inr s)
       js (setListeners st p type cbs)
     = Inr (setListeners st p type
         (cbs @ map (\<lambda>i. the (storedCallback st b i)) (filter (\<lambda>i. i \<noteq> p) js)))"
  using assms(2)
proof (induction js arbitrary: cbs)
  case Nil
  then show ?case by simp
next
  case (Cons i rest)
  show ?case
  proof (cases "i = p")
    case True
    then show ?thesis using Cons by simp
  next
    case False
    then obtain c where c: "storedCallback st b i = Some c"
      using Cons.prems by auto
    have g: "getBinderCallback (setListeners st p type cbs) b i =
               Inr (c, setListeners st p type cbs)"
      by (rule getBinderCallback_found) (simp add: c)
    have rest: "\<forall>i\<in>set rest. i \<noteq> p \<longrightarrow> storedCallback st b i \<noteq> None"
      using Cons.prems by simp
    show ?thesis
      using False assms(1) c
      by (simp add: g add_step Cons.IH [OF rest])
  qed
qed


subsection \<open>Wired stages\<close>

lemma wired_store: "wired st b \<Longrightarrow> callbackStore st \<noteq> None"
  by (simp add: wired_def)

lemma wired_stored:
  assumes "wired st b" and "i < length (layerGroups st)"
  shows "\<exists>c. storedCallback st b i = Some c \<and> cb_binder c = b \<and> cb_index c = i"
proof -
  from assms have "case storedCallback st b i of
                     None \<Rightarrow> False | Some c \<Rightarrow> cb_binder c = b \<and> cb_index c = i"
    by (simp add: wired_def list_all_iff)
  then show ?thesis by (cases "storedCallback st b i") auto
qed

lemma wired_listeners:
  assumes "wired st b" and "g < length (layerGroups st)"
  shows "lg_listeners (layerGroups st ! g) (getEventType (b_kind b)) = syncListeners st b g"
  using assms by (simp add: wired_def list_all_iff)

lemma removeEventListeners_wired:
  assumes "wired st b" and "p < length (layerGroups st)"
  shows "removeEventListeners st p b = Inr (setListeners st p (getEventType (b_kind b)) [])"
proof -
  let ?T = "getEventType (b_kind b)"
  let ?L = "syncListeners st b p"
  have st: "setListeners st p ?T ?L = st"
    by (rule setListeners_same) (rule wired_listeners [OF assms])
  have stored: "\<forall>i\<in>set [0..<length (layerGroups st)]. i \<noteq> p \<longrightarrow> storedCallback st b i \<noteq> None"
    using wired_stored [OF assms(1)] by fastforce
  have empty: "filter (\<lambda>x. cb_ref x \<notin> set (map (\<lambda>i. cb_ref (the (storedCallback st b i)))
                  (filter (\<lambda>i. i \<noteq> p) [0..<length (layerGroups st)]))) ?L = []"
    by (auto simp add: syncListeners_def filter_empty_conv)
  from remove_loop [OF assms(2) stored, of ?T ?L]
  show ?thesis
    unfolding removeEventListeners_def st empty .
qed

lemma addEventListeners_stored:
  assumes "p < length (layerGroups st)"
    and "\<forall>i<length (layerGroups st). storedCallback st b i \<noteq> None"
    and "lg_listeners (layerGroups st ! p) (getEventType (b_kind b)) = []"
  shows "addEventListeners st p b =
           Inr (setListeners st p (getEventType (b_kind b)) (syncListeners st b p))"
proof -
  let ?T = "getEventType (b_kind b)"
  have st: "setListeners st p ?T [] = st"
    by (rule setListeners_same) (rule assms(3))
  have stored: "\<forall>i\<in>set [0..<length (layerGroups st)]. i \<noteq> p \<longrightarrow> storedCallback st b i \<noteq> None"
    using assms(2) by auto
  from add_loop [OF assms(1) stored, of ?T "[]"]
  show ?thesis
    unfolding addEventListeners_def st by (simp add: syncListeners_def)
qed

lemma recordApplied_simps [simp]:
  "callbackStore (recordApplied st g calls) = callbackStore st"
  "binders (recordApplied st g calls) = binders st"
  "nextRef (recordApplied st g calls) = nextRef st"
  "length (layerGroups (recordApplied st g calls)) = length (layerGroups st)"
  "storedCallback (recordApplied st g calls) = storedCallback st"
  "syncListeners (recordApplied st g calls) = syncListeners st"
  by (simp_all add: recordApplied_def storedCallback_def syncListeners_def fun_eq_iff)

lemma recordApplied_group:
  "p < length (layerGroups st) \<Longrightarrow>
   lg_listeners (layerGroups (recordApplied st g calls) ! p) = lg_listeners (layerGroups st ! p)
   \<and> lg_dataIndices (layerGroups (recordApplied st g calls) ! p) = lg_dataIndices (layerGroups st ! p)
   \<and> lg_fires (layerGroups (recordApplied st g calls) ! p) = lg_fires (layerGroups st ! p)
   \<and> lg_applied (layerGroups (recordApplied st g calls) ! p) =
       lg_applied (layerGroups st ! p) @ (if p = g then calls else [])"
  by (simp add: recordApplied_def nth_list_update)

lemma wired_recordApplied:
  "wired st b \<Longrightarrow> wired (recordApplied st g calls) b"
  by (simp add: wired_def list_all_iff recordApplied_group)

lemma binderApplies_dataIndices:
  "lg_dataIndices lg = lg_dataIndices lg' \<Longrightarrow> binderApplies k lg e = binderApplies k lg' e"
  by (cases k) (auto simp add: getViewLayersByDataIndex_def split: option.splits)

lemma recordApplied_setListeners:
  "p < length (layerGroups st) \<Longrightarrow>
   (setListeners st p type cbs)\<lparr>layerGroups := (layerGroups (setListeners st p type cbs))
      [p := (layerGroups (setListeners st p type cbs) ! p)
              \<lparr>lg_applied := lg_applied (layerGroups (setListeners st p type cbs) ! p) @ calls\<rparr>]\<rparr>
   = setListeners (recordApplied st p calls) p type cbs"
proof -
  assume p: "p < length (layerGroups st)"
  have sw: "lg\<lparr>lg_listeners := f, lg_applied := a\<rparr> = lg\<lparr>lg_applied := a, lg_listeners := f\<rparr>"
    for lg :: layerGroup and f a
    by (cases lg) simp
  show ?thesis
    using p by (simp add: setListeners_def recordApplied_def) (subst sw, rule refl)
qed

lemma fire_no_listeners:
  assumes "g < length (layerGroups st)" and "lg_listeners (layerGroups st ! g) (ev_type e) = []"
  shows "lg_fireEvent (Suc d) st g e = Some (Inr st)"
  using assms by simp

lemma binderCallback_wired:
  assumes w: "wired st b" and p: "p < length (layerGroups st)"
    and c: "cb_binder c = b" "cb_index c = p"
    and ap: "binderApplies (b_kind b) (layerGroups st ! p) e = Inr applies"
  shows "binderCallback (lg_fireEvent (Suc d)) st c e =
           Some (Inr (recordApplied st p (if applies then [(b_kind b, e)] else [])))"
proof -
  let ?T = "getEventType (b_kind b)"
  let ?st1 = "setListeners st p ?T []"
  let ?calls = "if applies then [(b_kind b, e)] else []"
  let ?st2 = "setListeners (recordApplied st p ?calls) p ?T []"
  have rm: "removeEventListeners st p b = Inr ?st1"
    by (rule removeEventListeners_wired [OF w p])
  have p1: "p < length (layerGroups ?st1)" using p by simp
  have lg1: "lg_dataIndices (layerGroups ?st1 ! p) = lg_dataIndices (layerGroups st ! p)"
            "lg_fires (layerGroups ?st1 ! p) = lg_fires (layerGroups st ! p)"
    using p by (simp_all add: setListeners_def)
  have ap1: "binderApplies (b_kind b) (layerGroups ?st1 ! p) e = Inr applies"
    using binderApplies_dataIndices [OF lg1(1)] ap by simp
  have app: "applyBinder (lg_fireEvent (Suc d)) ?st1 b p e = Some (Inr ?st2)"
  proof (cases applies)
    case False
    have "recordApplied st p [] = st"
      by (simp add: recordApplied_def)
    then show ?thesis
      using False p1 ap1 by (simp add: applyBinder_def)
  next
    case True
    have p2: "p < length (layerGroups ?st2)" using p by simp
    have none: "lg_listeners (layerGroups ?st2 ! p) (ev_type (e\<lparr>ev_type := ?T\<rparr>)) = []"
      using p by simp
    have fire: "lg_fireEvent (Suc d) ?st2 p (e\<lparr>ev_type := ?T\<rparr>) = Some (Inr ?st2)"
      by (rule fire_no_listeners [OF p2 none])
    show ?thesis
      using True p1 ap1 fire
      by (simp add: applyBinder_def Let_def recordApplied_setListeners [OF p] del: lg_fireEvent.simps)
  qed
  let ?st' = "recordApplied st p ?calls"
  have w': "wired ?st' b" by (rule wired_recordApplied [OF w])
  have p': "p < length (layerGroups ?st')" using p by simp
  have stored: "\<forall>i<length (layerGroups ?st2). storedCallback ?st2 b i \<noteq> None"
    using wired_stored [OF w] by fastforce
  have lis: "lg_listeners (layerGroups ?st2 ! p) ?T = []"
    using p by simp
  have "addEventListeners ?st2 p b = Inr (setListeners ?st2 p ?T (syncListeners ?st2 b p))"
    using p by (intro addEventListeners_stored [OF _ stored lis]) simp
  also have "setListeners ?st2 p ?T (syncListeners ?st2 b p) =
             setListeners ?st' p ?T (syncListeners ?st' b p)"
    by (simp add: syncListeners_def)
  also have "\<dots> = ?st'"
    by (rule setListeners_same) (rule wired_listeners [OF w' p'])
  finally have add: "addEventListeners ?st2 p b = Inr ?st'" .
  show ?thesis
    using c rm app add by (simp add: binderCallback_def del: lg_fireEvent.simps)
qed


lemma callListeners_wired:
  assumes "wired st b" and "\<forall>j\<in>set js. j < length (layerGroups st)"
    and "\<forall>j\<in>set js. binderApplies (b_kind b) (layerGroups st ! j) e = Inr (ap j)"
  shows "callListeners (\<lambda>s cb. binderCallback (lg_fireEvent (Suc d)) s cb e)
           (map (\<lambda>i. the (storedCallback st b i)) js) st =
         Some (Inr (fold (\<lambda>j s. recordApplied s j (if ap j then [(b_kind b, e)] else [])) js st))"
  using assms
proof (induction js arbitrary: st)
  case Nil
  then show ?case by simp
next
  case (Cons j rest)
  let ?calls = "if ap j then [(b_kind b, e)] else []"
  let ?st1 = "recordApplied st j ?calls"
  have j: "j < length (layerGroups st)" using Cons.prems(2) by simp
  from wired_stored [OF Cons.prems(1) j] obtain c where
    c: "storedCallback st b j = Some c" "cb_binder c = b" "cb_index c = j" by blast
  have ap: "binderApplies (b_kind b) (layerGroups st ! j) e = Inr (ap j)"
    using Cons.prems(3) by simp
  have cb: "binderCallback (lg_fireEvent (Suc d)) st c e = Some (Inr ?st1)"
    by (rule binderCallback_wired [OF Cons.prems(1) j c(2,3) ap])
  have w1: "wired ?st1 b" by (rule wired_recordApplied [OF Cons.prems(1)])
  have l1: "\<forall>i\<in>set rest. i < length (layerGroups ?st1)"
    using Cons.prems(2) by simp
  have a1: "\<forall>i\<in>set rest. binderApplies (b_kind b) (layerGroups ?st1 ! i) e = Inr (ap i)"
  proof
    fix i assume i: "i \<in> set rest"
    then have "i < length (layerGroups st)" using Cons.prems(2) by simp
    then have "lg_dataIndices (layerGroups ?st1 ! i) = lg_dataIndices (layerGroups st ! i)"
      by (simp add: recordApplied_group)
    from binderApplies_dataIndices [OF this] Cons.prems(3) i
    show "binderApplies (b_kind b) (layerGroups ?st1 ! i) e = Inr (ap i)" by simp
  qed
  from Cons.IH [OF w1 l1 a1] cb c(1)
  show ?case by (simp del: lg_fireEvent.simps)
qed

lemma fold_recordApplied_simps [simp]:
  "callbackStore (fold (\<lambda>j s. recordApplied s j (calls j)) js st) = callbackStore st"
  "binders (fold (\<lambda>j s. recordApplied s j (calls j)) js st) = binders st"
  "nextRef (fold (\<lambda>j s. recordApplied s j (calls j)) js st) = nextRef st"
  "length (layerGroups (fold (\<lambda>j s. recordApplied s j (calls j)) js st)) = length (layerGroups st)"
  by (induction js arbitrary: st) simp_all

lemma fold_recordApplied_group:
  assumes "distinct js" and "p < length (layerGroups st)"
  shows "lg_listeners (layerGroups (fold (\<lambda>j s. recordApplied s j (calls j)) js st) ! p) =
           lg_listeners (layerGroups st ! p)
         \<and> lg_dataIndices (layerGroups (fold (\<lambda>j s. recordApplied s j (calls j)) js st) ! p) =
           lg_dataIndices (layerGroups st ! p)
         \<and> lg_fires (layerGroups (fold (\<lambda>j s. recordApplied s j (calls j)) js st) ! p) =
           lg_fires (layerGroups st ! p)
         \<and> lg_applied (layerGroups (fold (\<lambda>j s. recordApplied s j (calls j)) js st) ! p) =
           lg_applied (layerGroups st ! p) @ (if p \<in> set js then calls p else [])"
  using assms
proof (induction js arbitrary: st)
  case Nil
  then show ?case by simp
next
  case (Cons j rest)
  have d: "distinct rest" and nj: "j \<notin> set rest" using Cons.prems(1) by simp_all
  have p: "p < length (layerGroups (recordApplied st j (calls j)))"
    using Cons.prems(2) by simp
  from Cons.IH [OF d p] recordApplied_group [OF Cons.prems(2), of j "calls j"] nj
  show ?case by auto
qed

lemma wired_fold_recordApplied:
  "wired st b \<Longrightarrow> wired (fold (\<lambda>j s. recordApplied s j (calls j)) js st) b"
  by (induction js arbitrary: st) (simp_all add: wired_recordApplied)


subsection \<open>Binding\<close>

lemma storeExtends_refl [simp]: "storeExtends st st"
  by (simp add: storeExtends_def)

lemma storeExtends_trans: "storeExtends st st1 \<Longrightarrow> storeExtends st1 st2 \<Longrightarrow> storeExtends st st2"
  by (simp add: storeExtends_def)

lemma storeExtends_setListeners [simp]:
  "storeExtends st (setListeners st' g type cbs) = storeExtends st st'"
  "storeExtends (setListeners st g type cbs) st' = storeExtends st st'"
  by (simp_all add: storeExtends_def)

lemma storeWellFormed_setListeners [simp]:
  "storeWellFormed (setListeners st g type cbs) = storeWellFormed st"
  by (simp add: storeWellFormed_def)

lemma getBinderCallback_general:
  assumes "callbackStore st \<noteq> None"
  shows "\<exists>c st'. getBinderCallback st b i = Inr (c, st')
           \<and> storedCallback st' b i = Some c
           \<and> layerGroups st' = layerGroups st \<and> binders st' = binders st
           \<and> callbackStore st' \<noteq> None
           \<and> storeExtends st st'
           \<and> (storeWellFormed st \<longrightarrow> storeWellFormed st')"
proof (cases "storedCallback st b i")
  case (Some c)
  from getBinderCallback_found [OF Some] Some assms show ?thesis by auto
next
  case None
  from getBinderCallback_new [OF assms None] obtain st' where
    g: "getBinderCallback st b i = Inr (Callback (nextRef st) b i, st')"
    and f: "layerGroups st' = layerGroups st" "binders st' = binders st"
           "callbackStore st' \<noteq> None"
    and sc: "\<And>b' i'. storedCallback st' b' i' =
                 (if b' = b \<and> i' = i then Some (Callback (nextRef st) b i)
                  else storedCallback st b' i')"
    by blast
  have ext: "storeExtends st st'"
    using None by (auto simp add: storeExtends_def sc)
  have wf: "storeWellFormed st \<longrightarrow> storeWellFormed st'"
    by (auto simp add: storeWellFormed_def sc split: if_splits)
  show ?thesis
    using g f ext wf by (auto simp add: sc)
qed

lemma add_loop_general:
  assumes "p < length (layerGroups st)" and "callbackStore st \<noteq> None"
  shows "\<exists>st'. forEach
       (\<lambda>i s.
          if i \<noteq> p then
            if p < length (layerGroups s) then
              (case getBinderCallback s b i of
                 Inl e \<Rightarrow> Inl e
               | Inr (cb, s1) \<Rightarrow>
                   Inr (s1\<lparr>layerGroups := (layerGroups s1)
                            [p := lg_addEventListener (layerGroups s1 ! p) type cb]\<rparr>))
            else Inl TypeError
          else Inr s)
       js st = Inr st'
     \<and> callbackStore st' \<noteq> None \<and> binders st' = binders st
     \<and> storeExtends st st' \<and> (storeWellFormed st \<longrightarrow> storeWellFormed st')
     \<and> (\<forall>i\<in>set js. i \<noteq> p \<longrightarrow> storedCallback st' b i \<noteq> None)
     \<and> st' = setListeners (st'\<lparr>layerGroups := layerGroups st\<rparr>) p type
               (lg_listeners (layerGroups st ! p) type @
                  map (\<lambda>i. the (storedCallback st' b i)) (filter (\<lambda>i. i \<noteq> p) js))"
  using assms
proof (induction js arbitrary: st)
  case Nil
  have "setListeners st p type (lg_listeners (layerGroups st ! p) type) = st"
    by (rule setListeners_same) simp
  then show ?case using Nil.prems by simp
next
  case (Cons i rest)
  show ?case
  proof (cases "i = p")
    case True
    from Cons.IH [OF Cons.prems] True show ?thesis by simp
  next
    case False
    from getBinderCallback_general [OF Cons.prems(2), of b i] obtain c st1 where
      g: "getBinderCallback st b i = Inr (c, st1)"
      and sc: "storedCallback st1 b i = Some c"
      and f: "layerGroups st1 = layerGroups st" "binders st1 = binders st"
             "callbackStore st1 \<noteq> None"
      and ext: "storeExtends st st1"
      and wf: "storeWellFormed st \<longrightarrow> storeWellFormed st1"
      by blast
    let ?L = "lg_listeners (layerGroups st ! p) type"
    let ?s2 = "setListeners st1 p type (?L @ [c])"
    have s1: "st1 = setListeners st1 p type ?L"
      using f(1) by (simp add: setListeners_same)
    have step: "st1\<lparr>layerGroups := (layerGroups st1)
                   [p := lg_addEventListener (layerGroups st1 ! p) type c]\<rparr> = ?s2"
      using add_step [of p st1 type ?L c] Cons.prems(1) f(1) s1 by simp
    have p2: "p < length (layerGroups ?s2)" using Cons.prems(1) f(1) by simp
    have cs2: "callbackStore ?s2 \<noteq> None" using f(3) by simp
    from Cons.IH [OF p2 cs2] obtain st' where
      r: "forEach
       (\<lambda>i s.
          if i \<noteq> p then
            if p < length (layerGroups s) then
              (case getBinderCallback s b i of
                 Inl e \<Rightarrow> Inl e
               | Inr (cb, s1) \<Rightarrow>
                   Inr (s1\<lparr>layerGroups := (layerGroups s1)
                            [p := lg_addEventListener (layerGroups s1 ! p) type cb]\<rparr>))
            else Inl TypeError
          else Inr s)
       rest ?s2 = Inr st'"
      and f': "callbackStore st' \<noteq> None" "binders st' = binders ?s2"
      and ext': "storeExtends ?s2 st'"
      and wf': "storeWellFormed ?s2 \<longrightarrow> storeWellFormed st'"
      and all': "\<forall>i\<in>set rest. i \<noteq> p \<longrightarrow> storedCallback st' b i \<noteq> None"
      and eq': "st' = setListeners (st'\<lparr>layerGroups := layerGroups ?s2\<rparr>) p type
               (lg_listeners (layerGroups ?s2 ! p) type @
                  map (\<lambda>i. the (storedCallback st' b i)) (filter (\<lambda>i. i \<noteq> p) rest))"
      by blast
    have ci: "storedCallback st' b i = Some c"
      using ext' sc by (simp add: storeExtends_def)
    have run: "forEach
       (\<lambda>i s.
          if i \<noteq> p then
            if p < length (layerGroups s) then
              (case getBinderCallback s b i of
                 Inl e \<Rightarrow> Inl e
               | Inr (cb, s1) \<Rightarrow>
                   Inr (s1\<lparr>layerGroups := (layerGroups s1)
                            [p := lg_addEventListener (layerGroups s1 ! p) type cb]\<rparr>))
            else Inl TypeError
          else Inr s)
       (i # rest) st = Inr st'"
      using False Cons.prems(1) g step r by simp
    have ext2: "storeExtends st st'"
      using ext ext' by (auto intro: storeExtends_trans)
    have wf2: "storeWellFormed st \<longrightarrow> storeWellFormed st'"
      using wf wf' by simp
    have all2: "\<forall>j\<in>set (i # rest). j \<noteq> p \<longrightarrow> storedCallback st' b j \<noteq> None"
      using all' ci by simp
    have lg2: "lg_listeners (layerGroups ?s2 ! p) type = ?L @ [c]"
      using Cons.prems(1) f(1) by simp
    have "setListeners (st'\<lparr>layerGroups := layerGroups ?s2\<rparr>) p type cbs =
          setListeners (st'\<lparr>layerGroups := layerGroups st\<rparr>) p type cbs" for cbs
      using Cons.prems(1) f(1) by (simp add: setListeners_def)
    with eq' lg2 have eq2: "st' = setListeners (st'\<lparr>layerGroups := layerGroups st\<rparr>) p type
               (?L @ map (\<lambda>i. the (storedCallback st' b i)) (filter (\<lambda>i. i \<noteq> p) (i # rest)))"
      using False ci by simp
    show ?thesis
      using run f'(1) f'(2) f(2) ext2 wf2 all2 eq2
      by (intro exI [of _ st']) simp
  qed
qed


lemma forEach_single: "forEach body [x] = body x"
proof
  fix st show "forEach body [x] st = body x st"
    by (cases "body x st") simp_all
qed

lemma addEventListeners_general:
  assumes "g < length (layerGroups st)" and "callbackStore st \<noteq> None"
  shows "\<exists>st'. addEventListeners st g b = Inr st'
     \<and> callbackStore st' \<noteq> None \<and> binders st' = binders st
     \<and> storeExtends st st' \<and> (storeWellFormed st \<longrightarrow> storeWellFormed st')
     \<and> (\<forall>i<length (layerGroups st). i \<noteq> g \<longrightarrow> storedCallback st' b i \<noteq> None)
     \<and> st' = setListeners (st'\<lparr>layerGroups := layerGroups st\<rparr>) g (getEventType (b_kind b))
               (lg_listeners (layerGroups st ! g) (getEventType (b_kind b)) @
                  map (\<lambda>i. the (storedCallback st' b i))
                    (filter (\<lambda>i. i \<noteq> g) [0..<length (layerGroups st)]))"
  using add_loop_general [OF assms, where b = b and type = "getEventType (b_kind b)"
      and js = "[0..<length (layerGroups st)]"]
  unfolding addEventListeners_def by (simp add: Ball_def)

lemma syncListeners_extends:
  assumes "storeExtends st st'" and "length (layerGroups st') = length (layerGroups st)"
    and "\<forall>i<length (layerGroups st). i \<noteq> g \<longrightarrow> storedCallback st b i \<noteq> None"
  shows "syncListeners st' b g = syncListeners st b g"
  using assms by (auto simp add: syncListeners_def storeExtends_def)

lemma forEach_append:
  "forEach body (xs @ ys) st =
     (case forEach body xs st of Inl e \<Rightarrow> Inl e | Inr s1 \<Rightarrow> forEach body ys s1)"
  by (induction xs arbitrary: st) (auto split: sum.splits)

lemma addEventListeners_groups:
  assumes "g < length (layerGroups st)" and "callbackStore st \<noteq> None"
  shows "\<exists>st'. addEventListeners st g b = Inr st'
     \<and> callbackStore st' \<noteq> None \<and> binders st' = binders st
     \<and> storeExtends st st' \<and> (storeWellFormed st \<longrightarrow> storeWellFormed st')
     \<and> (\<forall>i<length (layerGroups st). i \<noteq> g \<longrightarrow> storedCallback st' b i \<noteq> None)
     \<and> layerGroups st' = (layerGroups st)
           [g := (layerGroups st ! g)\<lparr>lg_listeners := (lg_listeners (layerGroups st ! g))
              (getEventType (b_kind b) :=
                 lg_listeners (layerGroups st ! g) (getEventType (b_kind b)) @
                 map (\<lambda>i. the (storedCallback st' b i))
                   (filter (\<lambda>i. i \<noteq> g) [0..<length (layerGroups st)]))\<rparr>]"
proof -
  let ?T = "getEventType (b_kind b)"
  from addEventListeners_general [OF assms, of b] obtain st' where
    a: "addEventListeners st g b = Inr st'"
    and f: "callbackStore st' \<noteq> None" "binders st' = binders st"
           "storeExtends st st'" "storeWellFormed st \<longrightarrow> storeWellFormed st'"
           "\<forall>i<length (layerGroups st). i \<noteq> g \<longrightarrow> storedCallback st' b i \<noteq> None"
    and eq: "st' = setListeners (st'\<lparr>layerGroups := layerGroups st\<rparr>) g ?T
               (lg_listeners (layerGroups st ! g) ?T @
                  map (\<lambda>i. the (storedCallback st' b i))
                    (filter (\<lambda>i. i \<noteq> g) [0..<length (layerGroups st)]))"
    by blast
  have "layerGroups st' = (layerGroups st)
           [g := (layerGroups st ! g)\<lparr>lg_listeners := (lg_listeners (layerGroups st ! g))
              (?T := lg_listeners (layerGroups st ! g) ?T @
                 map (\<lambda>i. the (storedCallback st' b i))
                   (filter (\<lambda>i. i \<noteq> g) [0..<length (layerGroups st)]))\<rparr>]"
    by (subst eq) (simp add: setListeners_def)
  with a f show ?thesis by blast
qed

text \<open>Adding the listeners of binders of other event types leaves those of a type alone.\<close>

lemma other_binders_loop:
  assumes "g < length (layerGroups st)" and "callbackStore st \<noteq> None"
    and "\<forall>b'\<in>set bs. getEventType (b_kind b') \<noteq> type"
  shows "\<exists>st'. forEach (\<lambda>b' s. addEventListeners s g b') bs st = Inr st'
     \<and> callbackStore st' \<noteq> None \<and> binders st' = binders st
     \<and> storeExtends st st' \<and> (storeWellFormed st \<longrightarrow> storeWellFormed st')
     \<and> length (layerGroups st') = length (layerGroups st)
     \<and> (\<forall>h<length (layerGroups st).
           (h \<noteq> g \<longrightarrow> layerGroups st' ! h = layerGroups st ! h)
           \<and> lg_listeners (layerGroups st' ! h) type = lg_listeners (layerGroups st ! h) type
           \<and> lg_applied (layerGroups st' ! h) = lg_applied (layerGroups st ! h)
           \<and> lg_dataIndices (layerGroups st' ! h) = lg_dataIndices (layerGroups st ! h)
           \<and> lg_fires (layerGroups st' ! h) = lg_fires (layerGroups st ! h))"
  using assms
proof (induction bs arbitrary: st)
  case Nil
  then show ?case by simp
next
  case (Cons b' rest)
  let ?n = "length (layerGroups st)"
  have ty: "getEventType (b_kind b') \<noteq> type" using Cons.prems(3) by simp
  from addEventListeners_groups [OF Cons.prems(1,2), of b'] obtain st1 where
    a: "addEventListeners st g b' = Inr st1"
    and f1: "callbackStore st1 \<noteq> None" "binders st1 = binders st"
    and ext1: "storeExtends st st1" and wf1: "storeWellFormed st \<longrightarrow> storeWellFormed st1"
    and lgs1: "layerGroups st1 = (layerGroups st)
           [g := (layerGroups st ! g)\<lparr>lg_listeners := (lg_listeners (layerGroups st ! g))
              (getEventType (b_kind b') :=
                 lg_listeners (layerGroups st ! g) (getEventType (b_kind b')) @
                 map (\<lambda>i. the (storedCallback st1 b' i))
                   (filter (\<lambda>i. i \<noteq> g) [0..<?n]))\<rparr>]"
    by blast
  have len1: "length (layerGroups st1) = ?n" by (simp add: lgs1)
  have same1: "\<And>h. h < ?n \<Longrightarrow>
           (h \<noteq> g \<longrightarrow> layerGroups st1 ! h = layerGroups st ! h)
           \<and> lg_listeners (layerGroups st1 ! h) type = lg_listeners (layerGroups st ! h) type
           \<and> lg_applied (layerGroups st1 ! h) = lg_applied (layerGroups st ! h)
           \<and> lg_dataIndices (layerGroups st1 ! h) = lg_dataIndices (layerGroups st ! h)
           \<and> lg_fires (layerGroups st1 ! h) = lg_fires (layerGroups st ! h)"
    subgoal for h using ty by (cases "h = g") (simp_all add: lgs1)
    done
  have g1: "g < length (layerGroups st1)" using Cons.prems(1) len1 by simp
  have rest: "\<forall>b'\<in>set rest. getEventType (b_kind b') \<noteq> type" using Cons.prems(3) by simp
  from Cons.IH [OF g1 f1(1) rest] obtain st' where
    r: "forEach (\<lambda>b' s. addEventListeners s g b') rest st1 = Inr st'"
    and f': "callbackStore st' \<noteq> None" "binders st' = binders st1"
    and ext': "storeExtends st1 st'" and wf': "storeWellFormed st1 \<longrightarrow> storeWellFormed st'"
    and len': "length (layerGroups st') = length (layerGroups st1)"
    and same': "\<forall>h<length (layerGroups st1).
           (h \<noteq> g \<longrightarrow> layerGroups st' ! h = layerGroups st1 ! h)
           \<and> lg_listeners (layerGroups st' ! h) type = lg_listeners (layerGroups st1 ! h) type
           \<and> lg_applied (layerGroups st' ! h) = lg_applied (layerGroups st1 ! h)
           \<and> lg_dataIndices (layerGroups st' ! h) = lg_dataIndices (layerGroups st1 ! h)
           \<and> lg_fires (layerGroups st' ! h) = lg_fires (layerGroups st1 ! h)"
    by blast
  have run: "forEach (\<lambda>b' s. addEventListeners s g b') (b' # rest) st = Inr st'"
    using a r by simp
  have same: "\<forall>h<?n.
           (h \<noteq> g \<longrightarrow> layerGroups st' ! h = layerGroups st ! h)
           \<and> lg_listeners (layerGroups st' ! h) type = lg_listeners (layerGroups st ! h) type
           \<and> lg_applied (layerGroups st' ! h) = lg_applied (layerGroups st ! h)
           \<and> lg_dataIndices (layerGroups st' ! h) = lg_dataIndices (layerGroups st ! h)
           \<and> lg_fires (layerGroups st' ! h) = lg_fires (layerGroups st ! h)"
    using same' same1 len1 by simp
  show ?case
    using run f' f1(2) storeExtends_trans [OF ext1 ext'] wf1 wf' len' len1 same
    by (intro exI [of _ st']) simp
qed

text \<open>
  Adding, for one layer group, the listeners of a list of binders among which \<open>b\<close> is the
  only one of its event type.
\<close>

lemma binders_loop:
  assumes "g < length (layerGroups st)" and "callbackStore st \<noteq> None"
    and "filter (\<lambda>b'. getEventType (b_kind b') = getEventType (b_kind b)) bs = [b]"
    and "lg_listeners (layerGroups st ! g) (getEventType (b_kind b)) = []"
  shows "\<exists>st'. forEach (\<lambda>b' s. addEventListeners s g b') bs st = Inr st'
     \<and> callbackStore st' \<noteq> None \<and> binders st' = binders st
     \<and> storeExtends st st' \<and> (storeWellFormed st \<longrightarrow> storeWellFormed st')
     \<and> length (layerGroups st') = length (layerGroups st)
     \<and> lg_listeners (layerGroups st' ! g) (getEventType (b_kind b)) = syncListeners st' b g
     \<and> (\<forall>i<length (layerGroups st). i \<noteq> g \<longrightarrow> storedCallback st' b i \<noteq> None)
     \<and> (\<forall>h<length (layerGroups st).
           (h \<noteq> g \<longrightarrow> layerGroups st' ! h = layerGroups st ! h)
           \<and> lg_applied (layerGroups st' ! h) = lg_applied (layerGroups st ! h)
           \<and> lg_dataIndices (layerGroups st' ! h) = lg_dataIndices (layerGroups st ! h)
           \<and> lg_fires (layerGroups st' ! h) = lg_fires (layerGroups st ! h))"
proof -
  let ?T = "getEventType (b_kind b)"
  let ?n = "length (layerGroups st)"
  from assms(3) obtain pre post where
    bs: "bs = pre @ b # post"
    and pre: "\<forall>b'\<in>set pre. getEventType (b_kind b') \<noteq> ?T"
    and post: "\<forall>b'\<in>set post. getEventType (b_kind b') \<noteq> ?T"
    by (auto simp add: filter_eq_Cons_iff filter_empty_conv empty_filter_conv)
  from other_binders_loop [OF assms(1,2) pre] obtain s1 where
    r1: "forEach (\<lambda>b' s. addEventListeners s g b') pre st = Inr s1"
    and f1: "callbackStore s1 \<noteq> None" "binders s1 = binders st"
    and ext1: "storeExtends st s1" and wf1: "storeWellFormed st \<longrightarrow> storeWellFormed s1"
    and len1: "length (layerGroups s1) = ?n"
    and same1: "\<forall>h<?n.
           (h \<noteq> g \<longrightarrow> layerGroups s1 ! h = layerGroups st ! h)
           \<and> lg_listeners (layerGroups s1 ! h) ?T = lg_listeners (layerGroups st ! h) ?T
           \<and> lg_applied (layerGroups s1 ! h) = lg_applied (layerGroups st ! h)
           \<and> lg_dataIndices (layerGroups s1 ! h) = lg_dataIndices (layerGroups st ! h)
           \<and> lg_fires (layerGroups s1 ! h) = lg_fires (layerGroups st ! h)"
    by blast
  have g1: "g < length (layerGroups s1)" using assms(1) len1 by simp
  have e1: "lg_listeners (layerGroups s1 ! g) ?T = []"
    using same1 assms(1,4) by simp
  from addEventListeners_groups [OF g1 f1(1), of b] e1 len1 obtain s2 where
    a2: "addEventListeners s1 g b = Inr s2"
    and f2: "callbackStore s2 \<noteq> None" "binders s2 = binders s1"
    and ext2: "storeExtends s1 s2" and wf2: "storeWellFormed s1 \<longrightarrow> storeWellFormed s2"
    and all2: "\<forall>i<?n. i \<noteq> g \<longrightarrow> storedCallback s2 b i \<noteq> None"
    and lgs2: "layerGroups s2 = (layerGroups s1)
           [g := (layerGroups s1 ! g)\<lparr>lg_listeners := (lg_listeners (layerGroups s1 ! g))
              (?T := map (\<lambda>i. the (storedCallback s2 b i)) (filter (\<lambda>i. i \<noteq> g) [0..<?n]))\<rparr>]"
    by auto
  have len2: "length (layerGroups s2) = ?n" by (simp add: lgs2 len1)
  have lis2: "lg_listeners (layerGroups s2 ! g) ?T = syncListeners s2 b g"
    using g1 by (simp add: lgs2 syncListeners_def len1)
  have same2: "\<And>h. h < ?n \<Longrightarrow>
           (h \<noteq> g \<longrightarrow> layerGroups s2 ! h = layerGroups s1 ! h)
           \<and> lg_applied (layerGroups s2 ! h) = lg_applied (layerGroups s1 ! h)
           \<and> lg_dataIndices (layerGroups s2 ! h) = lg_dataIndices (layerGroups s1 ! h)
           \<and> lg_fires (layerGroups s2 ! h) = lg_fires (layerGroups s1 ! h)"
    subgoal for h using len1 by (cases "h = g") (simp_all add: lgs2)
    done
  have g2: "g < length (layerGroups s2)" using assms(1) len2 by simp
  from other_binders_loop [OF g2 f2(1) post] obtain s3 where
    r3: "forEach (\<lambda>b' s. addEventListeners s g b') post s2 = Inr s3"
    and f3: "callbackStore s3 \<noteq> None" "binders s3 = binders s2"
    and ext3: "storeExtends s2 s3" and wf3: "storeWellFormed s2 \<longrightarrow> storeWellFormed s3"
    and len3: "length (layerGroups s3) = length (layerGroups s2)"
    and same3: "\<forall>h<length (layerGroups s2).
           (h \<noteq> g \<longrightarrow> layerGroups s3 ! h = layerGroups s2 ! h)
           \<and> lg_listeners (layerGroups s3 ! h) ?T = lg_listeners (layerGroups s2 ! h) ?T
           \<and> lg_applied (layerGroups s3 ! h) = lg_applied (layerGroups s2 ! h)
           \<and> lg_dataIndices (layerGroups s3 ! h) = lg_dataIndices (layerGroups s2 ! h)
           \<and> lg_fires (layerGroups s3 ! h) = lg_fires (layerGroups s2 ! h)"
    by blast
  have run: "forEach (\<lambda>b' s. addEventListeners s g b') bs st = Inr s3"
    unfolding bs using r1 a2 r3 by (simp add: forEach_append)
  have sync: "syncListeners s3 b g = syncListeners s2 b g"
    using all2 len2 by (intro syncListeners_extends [OF ext3 len3]) simp
  have lis3: "lg_listeners (layerGroups s3 ! g) ?T = syncListeners s3 b g"
    using same3 g2 lis2 sync by simp
  have all3: "\<forall>i<?n. i \<noteq> g \<longrightarrow> storedCallback s3 b i \<noteq> None"
    using all2 ext3 by (auto simp add: storeExtends_def)
  have same: "\<forall>h<?n.
           (h \<noteq> g \<longrightarrow> layerGroups s3 ! h = layerGroups st ! h)
           \<and> lg_applied (layerGroups s3 ! h) = lg_applied (layerGroups st ! h)
           \<and> lg_dataIndices (layerGroups s3 ! h) = lg_dataIndices (layerGroups st ! h)
           \<and> lg_fires (layerGroups s3 ! h) = lg_fires (layerGroups st ! h)"
    using same1 same2 same3 len2 by simp
  have ext: "storeExtends st s3"
    using ext1 ext2 ext3 by (blast intro: storeExtends_trans)
  show ?thesis
    using run f3 f2(2) f1(2) ext wf1 wf2 wf3 len3 len2 lis3 all3 same
    by (intro exI [of _ s3]) simp
qed


lemma bind_loop:
  assumes "callbackStore st \<noteq> None" and "distinct gs"
    and "filter (\<lambda>b'. getEventType (b_kind b') = getEventType (b_kind b)) bs = [b]"
    and "\<forall>g\<in>set gs. g < length (layerGroups st)
           \<and> lg_listeners (layerGroups st ! g) (getEventType (b_kind b)) = []"
  shows "\<exists>st'. forEach (\<lambda>i. forEach (\<lambda>b' s. addEventListeners s i b') bs) gs st = Inr st'
     \<and> callbackStore st' \<noteq> None \<and> binders st' = binders st
     \<and> storeExtends st st' \<and> (storeWellFormed st \<longrightarrow> storeWellFormed st')
     \<and> length (layerGroups st') = length (layerGroups st)
     \<and> (\<forall>g\<in>set gs.
           lg_listeners (layerGroups st' ! g) (getEventType (b_kind b)) = syncListeners st' b g
           \<and> (\<forall>i<length (layerGroups st). i \<noteq> g \<longrightarrow> storedCallback st' b i \<noteq> None))
     \<and> (\<forall>g<length (layerGroups st).
           (g \<notin> set gs \<longrightarrow> layerGroups st' ! g = layerGroups st ! g)
           \<and> lg_applied (layerGroups st' ! g) = lg_applied (layerGroups st ! g)
           \<and> lg_dataIndices (layerGroups st' ! g) = lg_dataIndices (layerGroups st ! g)
           \<and> lg_fires (layerGroups st' ! g) = lg_fires (layerGroups st ! g))"
  using assms(1,2,4)
proof (induction gs arbitrary: st)
  case Nil
  then show ?case by simp
next
  case (Cons g rest)
  let ?T = "getEventType (b_kind b)"
  let ?n = "length (layerGroups st)"
  have g: "g < ?n" and empty: "lg_listeners (layerGroups st ! g) ?T = []"
    using Cons.prems(3) by simp_all
  from binders_loop [OF g Cons.prems(1) assms(3) empty] obtain st1 where
    a: "forEach (\<lambda>b' s. addEventListeners s g b') bs st = Inr st1"
    and f1: "callbackStore st1 \<noteq> None" "binders st1 = binders st"
    and ext1: "storeExtends st st1" and wf1: "storeWellFormed st \<longrightarrow> storeWellFormed st1"
    and len1: "length (layerGroups st1) = ?n"
    and lis1: "lg_listeners (layerGroups st1 ! g) ?T = syncListeners st1 b g"
    and all1: "\<forall>i<?n. i \<noteq> g \<longrightarrow> storedCallback st1 b i \<noteq> None"
    and same1: "\<forall>h<?n.
           (h \<noteq> g \<longrightarrow> layerGroups st1 ! h = layerGroups st ! h)
           \<and> lg_applied (layerGroups st1 ! h) = lg_applied (layerGroups st ! h)
           \<and> lg_dataIndices (layerGroups st1 ! h) = lg_dataIndices (layerGroups st ! h)
           \<and> lg_fires (layerGroups st1 ! h) = lg_fires (layerGroups st ! h)"
    by blast
  have d: "distinct rest" and ng: "g \<notin> set rest" using Cons.prems(2) by simp_all
  have pre: "\<forall>h\<in>set rest. h < length (layerGroups st1)
           \<and> lg_listeners (layerGroups st1 ! h) ?T = []"
  proof
    fix h assume h: "h \<in> set rest"
    then have hg: "h \<noteq> g" and hn: "h < ?n" using ng Cons.prems(3) by auto
    then have "layerGroups st1 ! h = layerGroups st ! h" using same1 by simp
    then show "h < length (layerGroups st1)
           \<and> lg_listeners (layerGroups st1 ! h) ?T = []"
      using Cons.prems(3) h len1 by simp
  qed
  from Cons.IH [OF f1(1) d pre] obtain st' where
    r: "forEach (\<lambda>i. forEach (\<lambda>b' s. addEventListeners s i b') bs) rest st1 = Inr st'"
    and f': "callbackStore st' \<noteq> None" "binders st' = binders st1"
    and ext': "storeExtends st1 st'" and wf': "storeWellFormed st1 \<longrightarrow> storeWellFormed st'"
    and len': "length (layerGroups st') = length (layerGroups st1)"
    and in': "\<forall>h\<in>set rest.
           lg_listeners (layerGroups st' ! h) ?T = syncListeners st' b h
           \<and> (\<forall>i<length (layerGroups st1). i \<noteq> h \<longrightarrow> storedCallback st' b i \<noteq> None)"
    and out': "\<forall>h<length (layerGroups st1).
           (h \<notin> set rest \<longrightarrow> layerGroups st' ! h = layerGroups st1 ! h)
           \<and> lg_applied (layerGroups st' ! h) = lg_applied (layerGroups st1 ! h)
           \<and> lg_dataIndices (layerGroups st' ! h) = lg_dataIndices (layerGroups st1 ! h)
           \<and> lg_fires (layerGroups st' ! h) = lg_fires (layerGroups st1 ! h)"
    by blast
  have run: "forEach (\<lambda>i. forEach (\<lambda>b' s. addEventListeners s i b') bs) (g # rest) st = Inr st'"
    using a r by simp
  have gfin: "lg_listeners (layerGroups st' ! g) ?T = syncListeners st' b g"
  proof -
    have "layerGroups st' ! g = layerGroups st1 ! g"
      using out' g ng len1 by simp
    moreover have "syncListeners st' b g = syncListeners st1 b g"
      using all1 len1 by (intro syncListeners_extends [OF ext' len']) simp
    ultimately show ?thesis using lis1 by simp
  qed
  have gall: "\<forall>i<?n. i \<noteq> g \<longrightarrow> storedCallback st' b i \<noteq> None"
    using all1 ext' by (auto simp add: storeExtends_def)
  have fin: "\<forall>h\<in>set (g # rest).
           lg_listeners (layerGroups st' ! h) ?T = syncListeners st' b h
           \<and> (\<forall>i<?n. i \<noteq> h \<longrightarrow> storedCallback st' b i \<noteq> None)"
    using gfin gall in' len1 by simp
  have out: "\<forall>h<?n.
           (h \<notin> set (g # rest) \<longrightarrow> layerGroups st' ! h = layerGroups st ! h)
           \<and> lg_applied (layerGroups st' ! h) = lg_applied (layerGroups st ! h)
           \<and> lg_dataIndices (layerGroups st' ! h) = lg_dataIndices (layerGroups st ! h)
           \<and> lg_fires (layerGroups st' ! h) = lg_fires (layerGroups st ! h)"
    using out' len1 same1 by auto
  show ?case
    using run f' f1(2) storeExtends_trans [OF ext1 ext'] wf1 wf' len' len1 fin out
    by (intro exI [of _ st']) simp
qed

text \<open>
  Binding a Stage of at least two layer groups on which \<open>b\<close> is the only binder of its
  event type, and no layer group listens for that type yet, wires the Stage for \<open>b\<close>.
\<close>

lemma bindLayerGroups_wired:
  assumes "filter (\<lambda>b'. getEventType (b_kind b') = getEventType (b_kind b)) (binders st) = [b]"
    and "2 \<le> length (layerGroups st)"
    and "\<forall>g<length (layerGroups st).
           lg_listeners (layerGroups st ! g) (getEventType (b_kind b)) = []"
  shows "\<exists>st'. bindLayerGroups st = Inr st' \<and> wired st' b
     \<and> binders st' = binders st
     \<and> length (layerGroups st') = length (layerGroups st)
     \<and> (\<forall>g<length (layerGroups st).
           lg_applied (layerGroups st' ! g) = lg_applied (layerGroups st ! g)
           \<and> lg_dataIndices (layerGroups st' ! g) = lg_dataIndices (layerGroups st ! g)
           \<and> lg_fires (layerGroups st' ! g) = lg_fires (layerGroups st ! g))"
proof -
  let ?T = "getEventType (b_kind b)"
  let ?n = "length (layerGroups st)"
  let ?st0 = "st\<lparr>callbackStore := Some (\<lambda>_. None)\<rparr>"
  have bnd: "bindLayerGroups st =
               forEach (\<lambda>i. forEach (\<lambda>b' s. addEventListeners s i b') (binders st)) [0..<?n] ?st0"
  proof -
    have "length (layerGroups st) \<noteq> 0" "length (layerGroups st) \<noteq> 1"
      using assms(2) by auto
    moreover have "binders st \<noteq> []" using assms(1) by auto
    ultimately show ?thesis
      by (simp add: bindLayerGroups_def)
  qed
  have cs: "callbackStore ?st0 \<noteq> None" by simp
  have wf0: "storeWellFormed ?st0"
    by (simp add: storeWellFormed_def storedCallback_def)
  have pre: "\<forall>g\<in>set [0..<?n]. g < length (layerGroups ?st0)
           \<and> lg_listeners (layerGroups ?st0 ! g) ?T = []"
    using assms(3) by simp
  from bind_loop [OF cs _ assms(1) pre] wf0 obtain st' where
    r: "forEach (\<lambda>i. forEach (\<lambda>b' s. addEventListeners s i b') (binders st)) [0..<?n] ?st0 = Inr st'"
    and f': "callbackStore st' \<noteq> None" "binders st' = binders st"
    and wf': "storeWellFormed st'"
    and len': "length (layerGroups st') = ?n"
    and in': "\<forall>h<?n.
           lg_listeners (layerGroups st' ! h) ?T = syncListeners st' b h
           \<and> (\<forall>i<?n. i \<noteq> h \<longrightarrow> storedCallback st' b i \<noteq> None)"
    and out': "\<forall>h<?n.
           lg_applied (layerGroups st' ! h) = lg_applied (layerGroups st ! h)
           \<and> lg_dataIndices (layerGroups st' ! h) = lg_dataIndices (layerGroups st ! h)
           \<and> lg_fires (layerGroups st' ! h) = lg_fires (layerGroups st ! h)"
    by fastforce
  have stored: "\<exists>c. storedCallback st' b i = Some c \<and> cb_binder c = b \<and> cb_index c = i"
    if i: "i < ?n" for i
  proof -
    have n: "0 < ?n" "1 < ?n" using assms(2) by linarith+
    obtain h where h: "h < ?n" "h \<noteq> i"
    proof (cases "i = 0")
      case True
      then show ?thesis using that [of 1] n(2) by blast
    next
      case False
      then show ?thesis using that [of 0] n(1) by blast
    qed
    with in' i obtain c where c: "storedCallback st' b i = Some c" by fastforce
    with wf' show ?thesis by (auto simp add: storeWellFormed_def)
  qed
  have w: "wired st' b"
    unfolding wired_def list_all_iff
    using f'(1) len' in' stored by fastforce
  show ?thesis
    using bnd r w f'(2) len' out' by simp
qed

subsection \<open>Synchronisation without echo\<close>

lemma wlchange_on_wired:
  assumes "wired st b" and "b_kind b = WindowLevelBinder"
    and "a < length (layerGroups st)" and "ev_type e = ''wlchange''"
  shows "\<exists>st'. lg_fireEvent (Suc (Suc d)) st a e = Some (Inr st')
           \<and> wired st' b
           \<and> length (layerGroups st') = length (layerGroups st)
           \<and> (\<forall>p<length (layerGroups st).
                 lg_applied (layerGroups st' ! p) =
                   lg_applied (layerGroups st ! p) @
                     (if p \<noteq> a \<and> getViewLayersByDataIndex (layerGroups st ! p) (ev_dataindex e) \<noteq> []
                      then [(WindowLevelBinder, e)] else [])
                 \<and> lg_listeners (layerGroups st' ! p) = lg_listeners (layerGroups st ! p))"
proof -
  let ?n = "length (layerGroups st)"
  let ?js = "filter (\<lambda>i. i \<noteq> a) [0..<?n]"
  let ?ap = "\<lambda>j. getViewLayersByDataIndex (layerGroups st ! j) (ev_dataindex e) \<noteq> []"
  let ?calls = "\<lambda>j. if ?ap j then [(b_kind b, e)] else []"
  let ?st' = "fold (\<lambda>j s. recordApplied s j (?calls j)) ?js st"
  have lis: "lg_listeners (layerGroups st ! a) (ev_type e) =
               map (\<lambda>i. the (storedCallback st b i)) ?js"
    using wired_listeners [OF assms(1,3)] assms(2,4) by (simp add: syncListeners_def)
  have lt: "\<forall>j\<in>set ?js. j < ?n" by simp
  have ap: "\<forall>j\<in>set ?js. binderApplies (b_kind b) (layerGroups st ! j) e = Inr (?ap j)"
    using assms(2) by simp
  have fire: "lg_fireEvent (Suc (Suc d)) st a e = Some (Inr ?st')"
    using assms(3) lis callListeners_wired [OF assms(1) lt ap, of d]
    by (simp del: callListeners.simps)
  have w: "wired ?st' b"
    by (rule wired_fold_recordApplied [OF assms(1)])
  have d: "distinct ?js" by simp
  have grp: "\<forall>p<?n.
                 lg_applied (layerGroups ?st' ! p) =
                   lg_applied (layerGroups st ! p) @
                     (if p \<noteq> a \<and> ?ap p then [(WindowLevelBinder, e)] else [])
                 \<and> lg_listeners (layerGroups ?st' ! p) = lg_listeners (layerGroups st ! p)"
  proof (intro allI impI)
    fix p assume p: "p < ?n"
    from fold_recordApplied_group [OF d p, of ?calls] p assms(2)
    show "lg_applied (layerGroups ?st' ! p) =
                   lg_applied (layerGroups st ! p) @
                     (if p \<noteq> a \<and> ?ap p then [(WindowLevelBinder, e)] else [])
                 \<and> lg_listeners (layerGroups ?st' ! p) = lg_listeners (layerGroups st ! p)"
      by auto
  qed
  show ?thesis
    using fire w grp by (intro exI [of _ ?st']) simp
qed


text \<open>
  C1, as amended. Take a Stage of at least two layer groups on which the window/level
  binder \<open>b\<close> is the only binder of event type wlchange, and no layer group listens for
  wlchange yet. \<^verbatim>\<open>bindLayerGroups\<close> succeeds, and on the bound Stage firing a wlchange
  event on any layer group \<open>a\<close> returns (a nesting depth of two is enough: the listener
  of \<open>a\<close>, and the echo of the peer inside it, which finds no listener) with no error;
  the window/level setter of every other layer group that has a view layer of the data of
  the event has been called exactly once, with that event, no setter of a layer group
  without such a view layer has been called, and no setter of \<open>a\<close> has been called; the
  listeners of every layer group are the same as before the event, so the peers forward
  their own later events. This holds whether or not the peers fire an echo
  (\<open>lg_fires\<close> is arbitrary).
\<close>

theorem wlchange_synchronised:
  assumes "filter (\<lambda>b'. getEventType (b_kind b') = ''wlchange'') (binders st0) = [b]"
    and "2 \<le> length (layerGroups st0)"
    and "\<forall>g<length (layerGroups st0). lg_listeners (layerGroups st0 ! g) ''wlchange'' = []"
    and "a < length (layerGroups st0)" and "ev_type e = ''wlchange''"
  shows "\<exists>st st'.
           bindLayerGroups st0 = Inr st
           \<and> lg_fireEvent (Suc (Suc d)) st a e = Some (Inr st')
           \<and> length (layerGroups st') = length (layerGroups st0)
           \<and> (\<forall>p<length (layerGroups st0).
                 lg_applied (layerGroups st' ! p) =
                   lg_applied (layerGroups st0 ! p) @
                     (if p \<noteq> a \<and> getViewLayersByDataIndex (layerGroups st0 ! p) (ev_dataindex e) \<noteq> []
                      then [(WindowLevelBinder, e)] else [])
                 \<and> lg_listeners (layerGroups st' ! p) = lg_listeners (layerGroups st ! p))"
proof -
  let ?n = "length (layerGroups st0)"
  have "b \<in> set (filter (\<lambda>b'. getEventType (b_kind b') = ''wlchange'') (binders st0))"
    using assms(1) by simp
  then have ty: "getEventType (b_kind b) = ''wlchange''" by simp
  then have kind: "b_kind b = WindowLevelBinder" by (cases "b_kind b") simp_all
  have only: "filter (\<lambda>b'. getEventType (b_kind b') = getEventType (b_kind b)) (binders st0) = [b]"
    using assms(1) ty by simp
  have fresh: "\<forall>g<?n. lg_listeners (layerGroups st0 ! g) (getEventType (b_kind b)) = []"
    using assms(3) ty by simp
  from bindLayerGroups_wired [OF only assms(2) fresh] obtain st where
    bnd: "bindLayerGroups st0 = Inr st" and w: "wired st b"
    and len: "length (layerGroups st) = ?n"
    and same: "\<forall>g<?n.
           lg_applied (layerGroups st ! g) = lg_applied (layerGroups st0 ! g)
           \<and> lg_dataIndices (layerGroups st ! g) = lg_dataIndices (layerGroups st0 ! g)"
    by blast
  have a: "a < length (layerGroups st)" using assms(4) len by simp
  from wlchange_on_wired [OF w kind a assms(5), of d] obtain st' where
    fire: "lg_fireEvent (Suc (Suc d)) st a e = Some (Inr st')"
    and len': "length (layerGroups st') = length (layerGroups st)"
    and grp: "\<forall>p<length (layerGroups st).
                 lg_applied (layerGroups st' ! p) =
                   lg_applied (layerGroups st ! p) @
                     (if p \<noteq> a \<and> getViewLayersByDataIndex (layerGroups st ! p) (ev_dataindex e) \<noteq> []
                      then [(WindowLevelBinder, e)] else [])
                 \<and> lg_listeners (layerGroups st' ! p) = lg_listeners (layerGroups st ! p)"
    by blast
  have vl: "getViewLayersByDataIndex (layerGroups st ! p) (ev_dataindex e) =
            getViewLayersByDataIndex (layerGroups st0 ! p) (ev_dataindex e)" if "p < ?n" for p
  proof -
    from same that have "lg_dataIndices (layerGroups st ! p) = lg_dataIndices (layerGroups st0 ! p)"
      by blast
    then show ?thesis by (simp add: getViewLayersByDataIndex_def split: option.splits)
  qed
  have "\<forall>p<?n.
                 lg_applied (layerGroups st' ! p) =
                   lg_applied (layerGroups st0 ! p) @
                     (if p \<noteq> a \<and> getViewLayersByDataIndex (layerGroups st0 ! p) (ev_dataindex e) \<noteq> []
                      then [(WindowLevelBinder, e)] else [])
                 \<and> lg_listeners (layerGroups st' ! p) = lg_listeners (layerGroups st ! p)"
    using grp len same vl by simp
  with bnd fire len len' show ?thesis by auto
qed

theorem wlchange_synchronised_witness:
  "filter (\<lambda>b'. getEventType (b_kind b') = ''wlchange'') (binders test_stage3) = [test_wlb]
   \<and> 2 \<le> length (layerGroups test_stage3)
   \<and> list_all (\<lambda>lg. lg_listeners lg ''wlchange'' = []) (layerGroups test_stage3)
   \<and> (0::nat) < length (layerGroups test_stage3) \<and> ev_type test_event = ''wlchange''
   \<and> (\<exists>st st'.
         bindLayerGroups test_stage3 = Inr st
         \<and> lg_fireEvent 2 st 0 test_event = Some (Inr st')
         \<and> map lg_applied (layerGroups st') =
             [[], [(WindowLevelBinder, test_event)], [(WindowLevelBinder, test_event)]])"
proof -
  have h1: "filter (\<lambda>b'. getEventType (b_kind b') = ''wlchange'') (binders test_stage3) =
              [test_wlb]"
    and h3: "2 \<le> length (layerGroups test_stage3)"
    and h5: "0 < length (layerGroups test_stage3)" and h6: "ev_type test_event = ''wlchange''"
    and len: "length (layerGroups test_stage3) = 3"
    by (simp_all add: test_stage3_def test_wlb_def test_pb_def test_event_def)
  have h4': "list_all (\<lambda>lg. lg_listeners lg ''wlchange'' = []) (layerGroups test_stage3)"
    by (simp add: test_stage3_def test_lg_def)
  then have h4: "\<forall>g<length (layerGroups test_stage3).
                  lg_listeners (layerGroups test_stage3 ! g) ''wlchange'' = []"
    by (simp add: list_all_length)
  from wlchange_synchronised [OF h1 h3 h4 h5 h6, of 0] obtain st st' where
    bnd: "bindLayerGroups test_stage3 = Inr st"
    and fire: "lg_fireEvent (Suc (Suc 0)) st 0 test_event = Some (Inr st')"
    and len': "length (layerGroups st') = 3"
    and grp: "\<forall>p<3.
                 lg_applied (layerGroups st' ! p) =
                   lg_applied (layerGroups test_stage3 ! p) @
                     (if p \<noteq> 0 \<and> getViewLayersByDataIndex (layerGroups test_stage3 ! p)
                                     (ev_dataindex test_event) \<noteq> []
                      then [(WindowLevelBinder, test_event)] else [])"
    unfolding len by blast
  have g0: "lg_applied (layerGroups st' ! 0) = []"
    using grp [rule_format, of 0]
    by (simp add: test_stage3_def test_lg_def)
  have g1: "lg_applied (layerGroups st' ! 1) = [(WindowLevelBinder, test_event)]"
    using grp [rule_format, of 1]
    by (simp add: test_stage3_def test_lg_def test_event_def getViewLayersByDataIndex_def)
  have g2: "lg_applied (layerGroups st' ! 2) = [(WindowLevelBinder, test_event)]"
    using grp [rule_format, of 2]
    by (simp add: test_stage3_def test_lg_def test_event_def getViewLayersByDataIndex_def)
  have "map lg_applied (layerGroups st') =
             [[], [(WindowLevelBinder, test_event)], [(WindowLevelBinder, test_event)]]"
  proof -
    from len' obtain x y z where xyz: "layerGroups st' = [x, y, z]"
      by (auto simp add: numeral_3_eq_3 length_Suc_conv)
    show ?thesis
      using g0 g1 g2 unfolding xyz by simp
  qed
  with bnd fire h1 h3 h4' h5 h6 show ?thesis
    by (auto simp add: numeral_2_eq_2)
qed


lemma test_stage_other_bind: "bindLayerGroups test_stage_other = Inr test_stage_other_bound"
  by (simp add: bindLayerGroups_def addEventListeners_def getBinderCallback_def Let_def
      lg_addEventListener_def test_stage_other_def test_stage_other_bound_def test_lg_def
      test_wlb_def upt_rec_numeral fun_upd_twist)

lemma test_stage_other_fire:
  "lg_fireEvent 2 test_stage_other_bound 0 test_event = Some (Inr test_stage_other_bound)"
proof -
  have rm: "removeEventListeners test_stage_other_bound (Suc 0) test_wlb =
              Inr (setListeners test_stage_other_bound (Suc 0) ''wlchange'' [])"
    by (simp add: removeEventListeners_def getBinderCallback_def Let_def
        lg_removeEventListener_def setListeners_def test_stage_other_bound_def test_lg_def
        test_wlb_def upt_rec_numeral)
  have ap: "applyBinder (lg_fireEvent (Suc 0))
              (setListeners test_stage_other_bound (Suc 0) ''wlchange'' []) test_wlb (Suc 0) test_event =
            Some (Inr (setListeners test_stage_other_bound (Suc 0) ''wlchange'' []))"
    by (simp add: applyBinder_def Let_def getViewLayersByDataIndex_def setListeners_def
        test_stage_other_bound_def test_lg_def test_wlb_def test_event_def)
  have ad: "addEventListeners (setListeners test_stage_other_bound (Suc 0) ''wlchange'' []) (Suc 0) test_wlb =
              Inr test_stage_other_bound"
    by (simp add: addEventListeners_def getBinderCallback_def Let_def
        lg_addEventListener_def setListeners_def test_stage_other_bound_def test_lg_def
        test_wlb_def upt_rec_numeral)
  have cb: "binderCallback (lg_fireEvent (Suc 0)) test_stage_other_bound
              (Callback 0 test_wlb (Suc 0)) test_event = Some (Inr test_stage_other_bound)"
    unfolding binderCallback_def
    by (simp only: callback.sel rm sum.case ap option.case ad)
  have lis: "lg_listeners (layerGroups test_stage_other_bound ! 0) (ev_type test_event) =
               [Callback 0 test_wlb (Suc 0)]"
    and len: "0 < length (layerGroups test_stage_other_bound)"
    by (simp_all add: test_stage_other_bound_def test_lg_def test_event_def)
  have "lg_fireEvent (Suc (Suc 0)) test_stage_other_bound 0 test_event =
          Some (Inr test_stage_other_bound)"
    using len by (simp add: lis cb del: lg_fireEvent.simps(2)) (simp add: lis cb)
  then show ?thesis by (simp add: numeral_2_eq_2)
qed

text \<open>
  C1 as stated fails for a bound layer group that has no view layer of the data of the
  event: the window/level binder looks the view layers up by the data index of the event
  and does nothing when there is none. Here the second layer group is bound (it has its
  forwarding listener) and shows data 1; a wlchange event of data 0 fired on the first
  leaves the whole Stage as it was, with no setter call on the second.
\<close>

theorem wlchange_skips_other_data:
  "bindLayerGroups test_stage_other = Inr test_stage_other_bound
   \<and> lg_listeners (layerGroups test_stage_other_bound ! 1) ''wlchange'' = [Callback 1 test_wlb 0]
   \<and> lg_fireEvent 2 test_stage_other_bound 0 test_event = Some (Inr test_stage_other_bound)
   \<and> lg_applied (layerGroups test_stage_other_bound ! 1) = []"
  using test_stage_other_bind test_stage_other_fire
  by (simp add: test_stage_other_bound_def test_lg_def)


subsection \<open>Memoised callbacks\<close>

lemma getBinderCallback_extends:
  assumes "getBinderCallback st b i = Inr (c, st1)"
  shows "storedCallback st1 b i = Some c \<and> storeExtends st st1
         \<and> layerGroups st1 = layerGroups st"
proof -
  have "callbackStore st \<noteq> None"
    using assms by (cases "callbackStore st") (simp_all add: getBinderCallback_def)
  from getBinderCallback_general [OF this, of b i] assms show ?thesis by auto
qed

lemma forEach_invariant:
  assumes "\<And>x s s'. I s \<Longrightarrow> body x s = Inr s' \<Longrightarrow> I s'"
    and "I st" and "forEach body xs st = Inr st'"
  shows "I st'"
  using assms(2,3)
proof (induction xs arbitrary: st)
  case Nil
  then show ?case by simp
next
  case (Cons x xs)
  from Cons.prems(2) obtain s1 where s1: "body x st = Inr s1" "forEach body xs s1 = Inr st'"
    by (auto split: sum.splits)
  from assms(1) [OF Cons.prems(1) s1(1)] have "I s1" .
  from Cons.IH [OF this s1(2)] show ?case .
qed

lemma storeExtends_layerGroups [simp]:
  "storeExtends st (st'\<lparr>layerGroups := lgs\<rparr>) = storeExtends st st'"
  by (simp add: storeExtends_def storedCallback_def)

lemma addEventListeners_extends:
  assumes "addEventListeners st g b = Inr st'"
  shows "storeExtends st st'"
proof (rule forEach_invariant [where I = "storeExtends st", OF _ _ assms [unfolded addEventListeners_def]])
  show "storeExtends st st" by simp
next
  fix x s s'
  assume i: "storeExtends st s"
    and b: "(if x \<noteq> g then
               if g < length (layerGroups s) then
                 (case getBinderCallback s b x of
                    Inl e \<Rightarrow> Inl e
                  | Inr (cb, s1) \<Rightarrow>
                      Inr (s1\<lparr>layerGroups := (layerGroups s1)
                               [g := lg_addEventListener (layerGroups s1 ! g)
                                       (getEventType (b_kind b)) cb]\<rparr>))
               else Inl TypeError
             else Inr s) = Inr s'"
  show "storeExtends st s'"
  proof (cases "x \<noteq> g \<and> g < length (layerGroups s)")
    case False
    then show ?thesis using i b by (auto split: if_splits)
  next
    case True
    with b obtain cb s1 where g: "getBinderCallback s b x = Inr (cb, s1)"
      and s': "s' = s1\<lparr>layerGroups := (layerGroups s1)
                               [g := lg_addEventListener (layerGroups s1 ! g)
                                       (getEventType (b_kind b)) cb]\<rparr>"
      by (auto split: sum.splits)
    from getBinderCallback_extends [OF g] have "storeExtends s s1" by simp
    with i show ?thesis unfolding s' by (auto intro: storeExtends_trans)
  qed
qed

lemma removeEventListeners_extends:
  assumes "removeEventListeners st g b = Inr st'"
  shows "storeExtends st st'"
proof (rule forEach_invariant [where I = "storeExtends st", OF _ _ assms [unfolded removeEventListeners_def]])
  show "storeExtends st st" by simp
next
  fix x s s'
  assume i: "storeExtends st s"
    and b: "(if x \<noteq> g then
               if g < length (layerGroups s) then
                 (case getBinderCallback s b x of
                    Inl e \<Rightarrow> Inl e
                  | Inr (cb, s1) \<Rightarrow>
                      Inr (s1\<lparr>layerGroups := (layerGroups s1)
                               [g := lg_removeEventListener (layerGroups s1 ! g)
                                       (getEventType (b_kind b)) cb]\<rparr>))
               else Inl TypeError
             else Inr s) = Inr s'"
  show "storeExtends st s'"
  proof (cases "x \<noteq> g \<and> g < length (layerGroups s)")
    case False
    then show ?thesis using i b by (auto split: if_splits)
  next
    case True
    with b obtain cb s1 where g: "getBinderCallback s b x = Inr (cb, s1)"
      and s': "s' = s1\<lparr>layerGroups := (layerGroups s1)
                               [g := lg_removeEventListener (layerGroups s1 ! g)
                                       (getEventType (b_kind b)) cb]\<rparr>"
      by (auto split: sum.splits)
    from getBinderCallback_extends [OF g] have "storeExtends s s1" by simp
    with i show ?thesis unfolding s' by (auto intro: storeExtends_trans)
  qed
qed

lemma removeEventListeners_stored:
  assumes "p < length (layerGroups st)"
    and "\<forall>i<length (layerGroups st). i \<noteq> p \<longrightarrow> storedCallback st b i \<noteq> None"
    and "lg_listeners (layerGroups st ! p) (getEventType (b_kind b)) = syncListeners st b p"
  shows "removeEventListeners st p b = Inr (setListeners st p (getEventType (b_kind b)) [])"
proof -
  let ?T = "getEventType (b_kind b)"
  let ?L = "syncListeners st b p"
  have st: "setListeners st p ?T ?L = st"
    by (rule setListeners_same) (rule assms(3))
  have stored: "\<forall>i\<in>set [0..<length (layerGroups st)]. i \<noteq> p \<longrightarrow> storedCallback st b i \<noteq> None"
    using assms(2) by simp
  have empty: "filter (\<lambda>x. cb_ref x \<notin> set (map (\<lambda>i. cb_ref (the (storedCallback st b i)))
                  (filter (\<lambda>i. i \<noteq> p) [0..<length (layerGroups st)]))) ?L = []"
    by (auto simp add: syncListeners_def filter_empty_conv)
  from remove_loop [OF assms(1) stored, of ?T ?L]
  show ?thesis
    unfolding removeEventListeners_def st empty .
qed

lemma fold_setListeners_simps [simp]:
  "callbackStore (fold (\<lambda>g s. setListeners s g type []) gs st) = callbackStore st"
  "binders (fold (\<lambda>g s. setListeners s g type []) gs st) = binders st"
  "nextRef (fold (\<lambda>g s. setListeners s g type []) gs st) = nextRef st"
  "length (layerGroups (fold (\<lambda>g s. setListeners s g type []) gs st)) = length (layerGroups st)"
  "storedCallback (fold (\<lambda>g s. setListeners s g type []) gs st) = storedCallback st"
  by (induction gs arbitrary: st) simp_all

lemma setListeners_other:
  "h \<noteq> g \<Longrightarrow> layerGroups (setListeners st g type cbs) ! h = layerGroups st ! h"
  by (simp add: setListeners_def)

lemma fold_setListeners_group:
  assumes "p < length (layerGroups st)"
  shows "lg_listeners (layerGroups (fold (\<lambda>g s. setListeners s g type []) gs st) ! p) type =
           (if p \<in> set gs then [] else lg_listeners (layerGroups st ! p) type)"
  using assms
proof (induction gs arbitrary: st)
  case Nil
  then show ?case by simp
next
  case (Cons g rest)
  have p: "p < length (layerGroups (setListeners st g type []))"
    using Cons.prems by simp
  show ?case
  proof (cases "p = g")
    case True
    then show ?thesis using Cons.IH [OF p] Cons.prems by simp
  next
    case False
    then show ?thesis using Cons.IH [OF p] by (simp add: setListeners_other)
  qed
qed

lemma unbind_loop:
  assumes "\<forall>i<length (layerGroups st). storedCallback st b i \<noteq> None" and "distinct gs"
    and "\<forall>g\<in>set gs. g < length (layerGroups st)
           \<and> lg_listeners (layerGroups st ! g) (getEventType (b_kind b)) = syncListeners st b g"
  shows "forEach (\<lambda>i s. removeEventListeners s i b) gs st =
           Inr (fold (\<lambda>g s. setListeners s g (getEventType (b_kind b)) []) gs st)"
  using assms
proof (induction gs arbitrary: st)
  case Nil
  then show ?case by simp
next
  case (Cons g rest)
  let ?T = "getEventType (b_kind b)"
  let ?st1 = "setListeners st g ?T []"
  have g: "g < length (layerGroups st)"
    and lis: "lg_listeners (layerGroups st ! g) ?T = syncListeners st b g"
    using Cons.prems(3) by simp_all
  have st: "\<forall>i<length (layerGroups st). i \<noteq> g \<longrightarrow> storedCallback st b i \<noteq> None"
    using Cons.prems(1) by simp
  have r: "removeEventListeners st g b = Inr ?st1"
    by (rule removeEventListeners_stored [OF g st lis])
  have d: "distinct rest" and ng: "g \<notin> set rest" using Cons.prems(2) by simp_all
  have s1: "\<forall>i<length (layerGroups ?st1). storedCallback ?st1 b i \<noteq> None"
    using Cons.prems(1) by simp
  have pre: "\<forall>h\<in>set rest. h < length (layerGroups ?st1)
           \<and> lg_listeners (layerGroups ?st1 ! h) ?T = syncListeners ?st1 b h"
  proof
    fix h assume h: "h \<in> set rest"
    then have "h \<noteq> g" using ng by auto
    then have "layerGroups ?st1 ! h = layerGroups st ! h" by (rule setListeners_other)
    moreover have "syncListeners ?st1 b h = syncListeners st b h"
      by (simp add: syncListeners_def)
    ultimately show "h < length (layerGroups ?st1)
           \<and> lg_listeners (layerGroups ?st1 ! h) ?T = syncListeners ?st1 b h"
      using Cons.prems(3) h by simp
  qed
  from Cons.IH [OF s1 d pre] r show ?case by simp
qed

lemma unbindLayerGroups_wired:
  assumes "wired st b" and "binders st = [b]" and "2 \<le> length (layerGroups st)"
  shows "\<exists>st'. unbindLayerGroups st = Inr st' \<and> callbackStore st' = None
           \<and> length (layerGroups st') = length (layerGroups st)
           \<and> (\<forall>g<length (layerGroups st).
                 lg_listeners (layerGroups st' ! g) (getEventType (b_kind b)) = [])"
proof -
  let ?T = "getEventType (b_kind b)"
  let ?n = "length (layerGroups st)"
  let ?s1 = "fold (\<lambda>g s. setListeners s g ?T []) [0..<?n] st"
  have stored: "\<forall>i<?n. storedCallback st b i \<noteq> None"
    using wired_stored [OF assms(1)] by fastforce
  have pre: "\<forall>g\<in>set [0..<?n]. g < ?n \<and> lg_listeners (layerGroups st ! g) ?T = syncListeners st b g"
    using wired_listeners [OF assms(1)] by simp
  have loop: "forEach (\<lambda>i s. removeEventListeners s i b) [0..<?n] st = Inr ?s1"
    by (rule unbind_loop [OF stored _ pre]) simp
  have n: "?n \<noteq> 0" "?n \<noteq> 1" using assms(3) by auto
  have u: "unbindLayerGroups st = Inr (?s1\<lparr>callbackStore := None\<rparr>)"
    using n assms(2) wired_store [OF assms(1)] loop
    by (auto simp add: unbindLayerGroups_def forEach_single)
  have "\<forall>g<?n. lg_listeners (layerGroups (?s1\<lparr>callbackStore := None\<rparr>) ! g) ?T = []"
    by (simp add: fold_setListeners_group)
  with u show ?thesis by simp
qed

lemma bindLayerGroups_fresh_store:
  assumes "2 \<le> length (layerGroups st)" and "binders st \<noteq> []"
  shows "bindLayerGroups (st\<lparr>callbackStore := cs\<rparr>) = bindLayerGroups st"
proof -
  have "length (layerGroups st) \<noteq> 0" "length (layerGroups st) \<noteq> 1"
    using assms(1) by auto
  then show ?thesis
    using assms(2) by (simp add: bindLayerGroups_def)
qed


lemma test_stage2_bind: "bindLayerGroups test_stage2 = Inr test_stage2_bound"
  by (simp add: bindLayerGroups_def addEventListeners_def getBinderCallback_def Let_def
      lg_addEventListener_def test_stage2_def test_stage2_bound_def test_lg_def test_wlb_def
      upt_rec_numeral fun_upd_twist)

lemma test_stage2_unbind: "unbindLayerGroups test_stage2_bound = Inr test_stage2_unbound"
  by (simp add: unbindLayerGroups_def removeEventListeners_def getBinderCallback_def Let_def
      lg_removeEventListener_def test_stage2_def test_stage2_bound_def test_stage2_unbound_def
      test_lg_def test_wlb_def)
    (simp add: fun_eq_iff)

lemma test_stage2_rebind: "bindLayerGroups test_stage2_unbound = Inr test_stage2_rebound"
  by (simp add: bindLayerGroups_def addEventListeners_def getBinderCallback_def Let_def
      lg_addEventListener_def test_stage2_def test_stage2_unbound_def test_stage2_rebound_def
      test_lg_def test_wlb_def upt_rec_numeral fun_upd_twist)

lemma test_stage2_bound_callback:
  "getBinderCallback test_stage2_bound test_wlb 1 = Inr (Callback 0 test_wlb 1, test_stage2_bound)"
  by (simp add: getBinderCallback_def Let_def test_stage2_bound_def)

lemma test_stage2_rebound_callback:
  "getBinderCallback test_stage2_rebound test_wlb 1 =
     Inr (Callback 2 test_wlb 1, test_stage2_rebound)"
  by (simp add: getBinderCallback_def Let_def test_stage2_rebound_def)

text \<open>
  C10, as amended. The callback of a (binder, layer group index) pair is memoised in the
  callback store for as long as the Stage stays bound. The callback that
  \<^verbatim>\<open>getBinderCallback\<close> returns is stored, and asking again returns the same reference
  and changes nothing; a stored callback is still the stored one after any
  \<^verbatim>\<open>getBinderCallback\<close>, \<^verbatim>\<open>addEventListeners\<close> or \<^verbatim>\<open>removeEventListeners\<close> that
  returns, for any binder and index. Removal by reference is therefore exact: unbinding a
  Stage wired for its one binder leaves no listener of the binder on any layer group. But
  \<^verbatim>\<open>unbindLayerGroups\<close> clears the store and \<^verbatim>\<open>bindLayerGroups\<close> starts from an empty
  one whatever the store was, so a new bind cycle creates new references.
\<close>

theorem callback_memoized_while_bound:
  "(getBinderCallback st b i = Inr (c, st1) \<longrightarrow>
      storedCallback st1 b i = Some c \<and> getBinderCallback st1 b i = Inr (c, st1))
   \<and> (storedCallback st b i = Some c \<longrightarrow>
        getBinderCallback st b i = Inr (c, st)
        \<and> (getBinderCallback st b' i' = Inr (c', st2) \<longrightarrow> storedCallback st2 b i = Some c)
        \<and> (addEventListeners st g b' = Inr st3 \<longrightarrow> storedCallback st3 b i = Some c)
        \<and> (removeEventListeners st g b' = Inr st4 \<longrightarrow> storedCallback st4 b i = Some c))
   \<and> (wired st b \<and> binders st = [b] \<and> 2 \<le> length (layerGroups st) \<longrightarrow>
        (\<exists>st5. unbindLayerGroups st = Inr st5 \<and> callbackStore st5 = None
           \<and> (\<forall>h<length (layerGroups st).
                 lg_listeners (layerGroups st5 ! h) (getEventType (b_kind b)) = [])))
   \<and> (2 \<le> length (layerGroups st) \<and> binders st \<noteq> [] \<longrightarrow>
        bindLayerGroups (st\<lparr>callbackStore := cs\<rparr>) = bindLayerGroups st)"
proof (intro conjI impI)
  assume g: "getBinderCallback st b i = Inr (c, st1)"
  from getBinderCallback_extends [OF g] show "storedCallback st1 b i = Some c" by simp
  then show "getBinderCallback st1 b i = Inr (c, st1)" by (rule getBinderCallback_found)
next
  assume "storedCallback st b i = Some c"
  then show "getBinderCallback st b i = Inr (c, st)" by (rule getBinderCallback_found)
next
  assume s: "storedCallback st b i = Some c" and g: "getBinderCallback st b' i' = Inr (c', st2)"
  from getBinderCallback_extends [OF g] s show "storedCallback st2 b i = Some c"
    by (simp add: storeExtends_def)
next
  assume s: "storedCallback st b i = Some c" and a: "addEventListeners st g b' = Inr st3"
  from addEventListeners_extends [OF a] s show "storedCallback st3 b i = Some c"
    by (simp add: storeExtends_def)
next
  assume s: "storedCallback st b i = Some c" and r: "removeEventListeners st g b' = Inr st4"
  from removeEventListeners_extends [OF r] s show "storedCallback st4 b i = Some c"
    by (simp add: storeExtends_def)
next
  assume "wired st b \<and> binders st = [b] \<and> 2 \<le> length (layerGroups st)"
  then have w: "wired st b" and bs: "binders st = [b]" and n: "2 \<le> length (layerGroups st)"
    by simp_all
  from unbindLayerGroups_wired [OF w bs n]
  show "\<exists>st5. unbindLayerGroups st = Inr st5 \<and> callbackStore st5 = None
           \<and> (\<forall>h<length (layerGroups st).
                 lg_listeners (layerGroups st5 ! h) (getEventType (b_kind b)) = [])"
    by blast
next
  assume "2 \<le> length (layerGroups st) \<and> binders st \<noteq> []"
  then show "bindLayerGroups (st\<lparr>callbackStore := cs\<rparr>) = bindLayerGroups st"
    by (simp add: bindLayerGroups_fresh_store)
qed

theorem callback_memoized_while_bound_witness:
  "getBinderCallback test_stage2_bound test_wlb 1 =
     Inr (Callback 0 test_wlb 1, test_stage2_bound)
   \<and> storedCallback test_stage2_bound test_wlb 1 = Some (Callback 0 test_wlb 1)
   \<and> removeEventListeners test_stage2_bound 0 test_wlb =
       Inr (setListeners test_stage2_bound 0 ''wlchange'' [])
   \<and> storedCallback (setListeners test_stage2_bound 0 ''wlchange'' []) test_wlb 1 =
       Some (Callback 0 test_wlb 1)
   \<and> wired test_stage2_bound test_wlb \<and> binders test_stage2_bound = [test_wlb]
   \<and> 2 \<le> length (layerGroups test_stage2_bound)
   \<and> (\<exists>st5. unbindLayerGroups test_stage2_bound = Inr st5 \<and> callbackStore st5 = None)
   \<and> binders test_stage2_bound \<noteq> []
   \<and> bindLayerGroups (test_stage2_bound\<lparr>callbackStore := None\<rparr>) =
       bindLayerGroups test_stage2_bound"
proof -
  let ?st = test_stage2_bound
  let ?c = "Callback 0 test_wlb 1"
  have g: "getBinderCallback ?st test_wlb 1 = Inr (?c, ?st)"
    by (rule test_stage2_bound_callback)
  have bs: "binders ?st = [test_wlb]" and n: "2 \<le> length (layerGroups ?st)"
    and ne: "binders ?st \<noteq> []"
    by (simp_all add: test_stage2_bound_def)
  have fresh: "\<forall>h<length (layerGroups test_stage2).
      lg_listeners (layerGroups test_stage2 ! h) (getEventType (b_kind test_wlb)) = []"
    by (simp add: test_stage2_def test_lg_def less_Suc_eq numeral_2_eq_2)
  have "filter (\<lambda>b'. getEventType (b_kind b') = getEventType (b_kind test_wlb))
          (binders test_stage2) = [test_wlb]"
    "2 \<le> length (layerGroups test_stage2)"
    by (simp_all add: test_stage2_def)
  from bindLayerGroups_wired [OF this fresh] test_stage2_bind
  have w: "wired ?st test_wlb" by simp
  have rm: "removeEventListeners ?st 0 test_wlb = Inr (setListeners ?st 0 ''wlchange'' [])"
  proof -
    have "0 < length (layerGroups ?st)" by (simp add: test_stage2_bound_def)
    from removeEventListeners_wired [OF w this] show ?thesis by (simp add: test_wlb_def)
  qed
  note t = callback_memoized_while_bound
    [where st = ?st and b = test_wlb and i = 1 and c = ?c and ?st1.0 = ?st and b' = test_wlb
      and g = 0 and ?st4.0 = "setListeners ?st 0 ''wlchange'' []" and cs = None]
  from t g have s: "storedCallback ?st test_wlb 1 = Some ?c" by blast
  from t s rm have s4: "storedCallback (setListeners ?st 0 ''wlchange'' []) test_wlb 1 = Some ?c"
    by blast
  from t w bs n have u: "\<exists>st5. unbindLayerGroups ?st = Inr st5 \<and> callbackStore st5 = None"
    by blast
  from t n ne have b: "bindLayerGroups (?st\<lparr>callbackStore := None\<rparr>) = bindLayerGroups ?st"
    by blast
  from g s rm s4 w bs n u ne b show ?thesis by blast
qed


text \<open>
  C10 as stated fails: across an unbind and a new bind the callback of the pair
  (window/level binder, layer group 1) is a new closure, not the one of the first bind.
\<close>

theorem callbacks_not_reused_across_bind_cycles:
  "bindLayerGroups test_stage2 = Inr test_stage2_bound
   \<and> getBinderCallback test_stage2_bound test_wlb 1 =
       Inr (Callback 0 test_wlb 1, test_stage2_bound)
   \<and> unbindLayerGroups test_stage2_bound = Inr test_stage2_unbound
   \<and> bindLayerGroups test_stage2_unbound = Inr test_stage2_rebound
   \<and> getBinderCallback test_stage2_rebound test_wlb 1 =
       Inr (Callback 2 test_wlb 1, test_stage2_rebound)
   \<and> cb_ref (Callback 0 test_wlb 1) \<noteq> cb_ref (Callback 2 test_wlb 1)"
  using test_stage2_bind test_stage2_unbind test_stage2_rebind test_stage2_bound_callback
    test_stage2_rebound_callback
  by simp


end
